theory Spec2Isabelle
  imports Main "HOL-Library.Word"
begin

section \<open>The wire codec (package resp)\<close>

subsection \<open>Values, errors and outcomes\<close>

text \<open>
  The Go struct \<^verbatim>\<open>resp.Value\<close> has the fields Type, Str, Num, Bulk, Array and Null.
  It is recursive through Array, so it is a datatype with one constructor and the
  fields as selectors. Go strings are byte strings: \<open>string\<close>. Go's \<^verbatim>\<open>int\<close> is taken
  to be 64 bits wide (a 64-bit platform), so Num is a 64-bit word read as a signed
  number with \<open>sint\<close>. A nil slice and an empty slice are both the empty list.
\<close>

datatype Value = Value (Type: string) (Str: string) (Num: "64 word") (Bulk: string)
  (Array: "Value list") (Null: bool)

abbreviation STRING :: string where "STRING \<equiv> ''string''"
abbreviation ERROR :: string where "ERROR \<equiv> ''error''"
abbreviation INTEGER :: string where "INTEGER \<equiv> ''integer''"
abbreviation BULK :: string where "BULK \<equiv> ''bulk''"
abbreviation ARRAY :: string where "ARRAY \<equiv> ''array''"

abbreviation CR :: char where "CR \<equiv> CHR 0x0D"
abbreviation LF :: char where "LF \<equiv> CHR 0x0A"
abbreviation CRLF :: string where "CRLF \<equiv> [CR, LF]"

text \<open>The zero value \<^verbatim>\<open>Value{}\<close> of the struct.\<close>

definition zeroValue :: Value where
  "zeroValue = Value [] [] 0 [] [] False"

text \<open>The constructor helpers of the writer's file.\<close>

definition NewSimpleString :: "string \<Rightarrow> Value" where
  "NewSimpleString s = Value STRING s 0 [] [] False"

definition NewError :: "string \<Rightarrow> Value" where
  "NewError s = Value ERROR s 0 [] [] False"

definition NewInteger :: "64 word \<Rightarrow> Value" where
  "NewInteger n = Value INTEGER [] n [] [] False"

definition NewBulkString :: "string \<Rightarrow> Value" where
  "NewBulkString s = Value BULK [] 0 s [] False"

definition NewNullBulkString :: Value where
  "NewNullBulkString = Value BULK [] 0 [] [] True"

definition NewArray :: "Value list \<Rightarrow> Value" where
  "NewArray arr = Value ARRAY [] 0 [] arr False"

definition NewNullArray :: Value where
  "NewNullArray = Value ARRAY [] 0 [] [] True"

text \<open>
  The error values the codec can return: the two end-of-stream errors of package io,
  and the errors the codec builds with \<^verbatim>\<open>fmt.Errorf\<close>, each with the datum it prints.
\<close>

datatype error =
    EOF
  | ErrUnexpectedEOF
  | UnknownRESPType char
  | InvalidInteger string
  | InvalidBulkStringLength string
  | InvalidArrayLength string
  | UnknownValueType string

text \<open>
  A run-time panic of Go is not an error value: it unwinds the goroutine and, with no
  \<^verbatim>\<open>recover\<close> anywhere in the repository, ends the process. The model keeps it apart
  from the returned errors.
\<close>

datatype panic = MakesliceLenOutOfRange | IndexOutOfRange

text \<open>
  What a reading function does with the stream it is given: it panics, it returns an
  error, or it returns a result together with the bytes it has not consumed.
\<close>

datatype 'a reading = Panicked panic | Failed error | Ok 'a string

subsection \<open>Library functions the codec calls\<close>

text \<open>
  \<^verbatim>\<open>fmt\<close>'s verb \<^verbatim>\<open>%d\<close>: the decimal digits of an integer, with a minus sign when it is
  negative.
\<close>

definition digit_char :: "nat \<Rightarrow> char" where
  "digit_char d = char_of (48 + d)"

fun decimal :: "nat \<Rightarrow> string" where
  "decimal n = (if n < 10 then [digit_char n] else decimal (n div 10) @ [digit_char (n mod 10)])"

declare decimal.simps [simp del]

definition FormatInt :: "int \<Rightarrow> string" where
  "FormatInt i = (if i < 0 then CHR ''-'' # decimal (nat (- i)) else decimal (nat i))"

text \<open>
  \<^verbatim>\<open>strconv.Atoi\<close>: an optional sign, then at least one decimal digit and nothing else;
  a value outside the 64-bit signed range is an error as well. Both of its errors are
  \<open>None\<close>, because the codec only tests \<^verbatim>\<open>err != nil\<close>.
\<close>

definition is_digit :: "char \<Rightarrow> bool" where
  "is_digit c = (48 \<le> (of_char c :: nat) \<and> (of_char c :: nat) \<le> 57)"

definition digit_val :: "char \<Rightarrow> nat" where
  "digit_val c = of_char c - 48"

definition digits_val :: "string \<Rightarrow> nat" where
  "digits_val ds = foldl (\<lambda>acc c. acc * 10 + digit_val c) 0 ds"

definition Atoi :: "string \<Rightarrow> int option" where
  "Atoi s =
     (let neg = (s \<noteq> [] \<and> hd s = CHR ''-'');
          ds = (if s \<noteq> [] \<and> (hd s = CHR ''-'' \<or> hd s = CHR ''+'') then tl s else s)
      in if ds = [] \<or> \<not> list_all is_digit ds then None
         else let v = (if neg then - int (digits_val ds) else int (digits_val ds))
              in if v < - (2 ^ 63) \<or> 2 ^ 63 - 1 < v then None else Some v)"

text \<open>
  \<^verbatim>\<open>bufio.Reader.ReadString(delim)\<close> on a stream whose remaining bytes are \<open>s\<close>: the
  bytes up to and including the first \<open>delim\<close>, or the error EOF when there is none.
\<close>

definition ReadString :: "char \<Rightarrow> string \<Rightarrow> error + (string \<times> string)" where
  "ReadString delim s =
     (if delim \<in> set s
      then Inr (takeWhile (\<lambda>c. c \<noteq> delim) s @ [delim], tl (dropWhile (\<lambda>c. c \<noteq> delim) s))
      else Inl EOF)"

text \<open>\<^verbatim>\<open>strings.TrimSuffix\<close>.\<close>

definition TrimSuffix :: "string \<Rightarrow> string \<Rightarrow> string" where
  "TrimSuffix s suffix =
     (if length suffix \<le> length s \<and> drop (length s - length suffix) s = suffix
      then take (length s - length suffix) s else s)"

text \<open>
  \<^verbatim>\<open>io.ReadFull\<close> into a buffer of \<open>n\<close> bytes: the next \<open>n\<close> bytes; with fewer bytes
  left the error is EOF when none was read and ErrUnexpectedEOF otherwise. A buffer of
  length 0 is filled without reading.
\<close>

definition ReadFull :: "nat \<Rightarrow> string \<Rightarrow> error + (string \<times> string)" where
  "ReadFull n s =
     (if n \<le> length s then Inr (take n s, drop n s)
      else if s = [] then Inl EOF else Inl ErrUnexpectedEOF)"

text \<open>
  \<^verbatim>\<open>bufio.Reader.ReadByte\<close> with its result and error dropped, as the bulk string reader
  calls it: one byte is consumed when there is one.
\<close>

definition ReadByte_discard :: "string \<Rightarrow> string" where
  "ReadByte_discard s = drop 1 s"

subsection \<open>The reader\<close>

definition readLine :: "string \<Rightarrow> error + (string \<times> string)" where
  "readLine s =
     (case ReadString LF s of
        Inl err \<Rightarrow> Inl err
      | Inr (line, rest) \<Rightarrow> Inr (TrimSuffix line CRLF, rest))"

definition readSimpleString :: "string \<Rightarrow> Value reading" where
  "readSimpleString s =
     (case readLine s of
        Inl err \<Rightarrow> Failed err
      | Inr (line, rest) \<Rightarrow> Ok (Value STRING line 0 [] [] False) rest)"

definition readError :: "string \<Rightarrow> Value reading" where
  "readError s =
     (case readLine s of
        Inl err \<Rightarrow> Failed err
      | Inr (line, rest) \<Rightarrow> Ok (Value ERROR line 0 [] [] False) rest)"

definition readInteger :: "string \<Rightarrow> Value reading" where
  "readInteger s =
     (case readLine s of
        Inl err \<Rightarrow> Failed err
      | Inr (line, rest) \<Rightarrow>
          (case Atoi line of
             None \<Rightarrow> Failed (InvalidInteger line)
           | Some num \<Rightarrow> Ok (Value INTEGER [] (word_of_int num) [] [] False) rest))"

text \<open>
  \<^verbatim>\<open>make([]byte, length)\<close> panics when \<open>length\<close> is negative; the reader makes the slice
  with whatever \<^verbatim>\<open>Atoi\<close> returned once the line is not literally \<^verbatim>\<open>-1\<close>. (\<^verbatim>\<open>make\<close> also
  panics on a length beyond what the platform can allocate; that bound is not
  modelled, and such a length is read as if the slice could be made.)
\<close>

definition readBulkString :: "string \<Rightarrow> Value reading" where
  "readBulkString s =
     (case readLine s of
        Inl err \<Rightarrow> Failed err
      | Inr (line, rest) \<Rightarrow>
          if line = ''-1'' then Ok (Value BULK [] 0 [] [] True) rest
          else (case Atoi line of
             None \<Rightarrow> Failed (InvalidBulkStringLength line)
           | Some len \<Rightarrow>
               if len < 0 then Panicked MakesliceLenOutOfRange
               else (case ReadFull (nat len) rest of
                  Inl err \<Rightarrow> Failed err
                | Inr (bulk, rest') \<Rightarrow>
                    Ok (Value BULK [] 0 bulk [] False)
                       (ReadByte_discard (ReadByte_discard rest')))))"

text \<open>
  \<open>Read\<close>, \<open>readArray\<close> and the loop of \<open>readArray\<close> call each other. The loop keeps the
  source's counter \<open>i\<close>, its bound and the slice \<open>array\<close>, which starts as \<open>length\<close>
  zero values and is written at index \<open>i\<close>.
\<close>

function Read :: "string \<Rightarrow> Value reading"
  and readArray :: "string \<Rightarrow> Value reading"
  and readArray_loop :: "nat \<Rightarrow> nat \<Rightarrow> Value list \<Rightarrow> string \<Rightarrow> (Value list) reading"
where
  "Read [] = Failed EOF"
| "Read (typeByte # s) =
     (if typeByte = CHR ''+'' then readSimpleString s
      else if typeByte = CHR ''-'' then readError s
      else if typeByte = CHR '':'' then readInteger s
      else if typeByte = CHR ''$'' then readBulkString s
      else if typeByte = CHR ''*'' then readArray s
      else Failed (UnknownRESPType typeByte))"
| "readArray s =
     (case readLine s of
        Inl err \<Rightarrow> Failed err
      | Inr (line, rest) \<Rightarrow>
          if line = ''-1'' then Ok (Value ARRAY [] 0 [] [] True) rest
          else (case Atoi line of
             None \<Rightarrow> Failed (InvalidArrayLength line)
           | Some len \<Rightarrow>
               if len < 0 then Panicked MakesliceLenOutOfRange
               else (case readArray_loop 0 (nat len) (replicate (nat len) zeroValue) rest of
                  Panicked p \<Rightarrow> Panicked p
                | Failed err \<Rightarrow> Failed err
                | Ok array rest' \<Rightarrow> Ok (Value ARRAY [] 0 [] array False) rest')))"
| "readArray_loop i len array s =
     (if i < len
      then (case Read s of
              Panicked p \<Rightarrow> Panicked p
            | Failed err \<Rightarrow> Failed err
            | Ok val rest \<Rightarrow> readArray_loop (i + 1) len (array[i := val]) rest)
      else Ok array s)"
  by pat_completeness auto

text \<open>
  Termination: every successful read consumes at least one byte, so the stream a nested
  call is given is shorter. The fact is proved on the domain of the functions first.
\<close>

lemma ReadString_shorter:
  "ReadString d s = Inr (line, rest) \<Longrightarrow> length rest < length s"
proof -
  assume a: "ReadString d s = Inr (line, rest)"
  then have m: "d \<in> set s" and r: "rest = tl (dropWhile (\<lambda>c. c \<noteq> d) s)"
    by (auto simp: ReadString_def split: if_splits)
  from m have ne: "dropWhile (\<lambda>c. c \<noteq> d) s \<noteq> []" by simp
  have "length (dropWhile (\<lambda>c. c \<noteq> d) s) \<le> length s" by (rule length_dropWhile_le)
  with ne r show ?thesis by (cases "dropWhile (\<lambda>c. c \<noteq> d) s") auto
qed

lemma readLine_shorter:
  "readLine s = Inr (line, rest) \<Longrightarrow> length rest < length s"
  by (auto simp: readLine_def split: sum.splits dest: ReadString_shorter)

lemma readSimpleString_shorter:
  "readSimpleString s = Ok v rest \<Longrightarrow> length rest < length s"
  by (auto simp: readSimpleString_def split: sum.splits dest: readLine_shorter)

lemma readError_shorter:
  "readError s = Ok v rest \<Longrightarrow> length rest < length s"
  by (auto simp: readError_def split: sum.splits dest: readLine_shorter)

lemma readInteger_shorter:
  "readInteger s = Ok v rest \<Longrightarrow> length rest < length s"
  by (auto simp: readInteger_def split: sum.splits option.splits dest: readLine_shorter)

lemma readBulkString_shorter:
  "readBulkString s = Ok v rest \<Longrightarrow> length rest < length s"
  by (auto simp: readBulkString_def ReadFull_def ReadByte_discard_def
      split: sum.splits option.splits if_splits dest!: readLine_shorter)

lemma Read_shorter_dom:
  "Read_readArray_readArray_loop_dom (Inl s) \<Longrightarrow>
     (\<forall>v rest. Read s = Ok v rest \<longrightarrow> length rest < length s)"
  "Read_readArray_readArray_loop_dom (Inr (Inl s')) \<Longrightarrow>
     (\<forall>v rest. readArray s' = Ok v rest \<longrightarrow> length rest < length s')"
  "Read_readArray_readArray_loop_dom (Inr (Inr (i, len, array, s''))) \<Longrightarrow>
     (\<forall>vs rest. readArray_loop i len array s'' = Ok vs rest \<longrightarrow> length rest \<le> length s'')"
proof (induction rule: Read_readArray_readArray_loop.pinduct)
  case 1
  then show ?case by (simp add: Read.psimps)
next
  case (2 typeByte s)
  then show ?case
    by (auto simp: Read.psimps dest: readSimpleString_shorter readError_shorter
        readInteger_shorter readBulkString_shorter split: if_splits)
next
  case (3 s)
  show ?case
  proof (intro allI impI)
    fix v rest assume a: "readArray s = Ok v rest"
    from a 3(1) obtain line r1 len arr where
      l: "readLine s = Inr (line, r1)" and
      c: "line = ''-1'' \<and> rest = r1 \<or>
          line \<noteq> ''-1'' \<and> Atoi line = Some len \<and> \<not> len < 0 \<and>
          readArray_loop 0 (nat len) (replicate (nat len) zeroValue) r1 = Ok arr rest"
      by (auto simp: readArray.psimps split: sum.splits option.splits if_splits reading.splits)
    from l have "length r1 < length s" by (rule readLine_shorter)
    moreover from c 3(2)[OF l] have "length rest \<le> length r1" by auto
    ultimately show "length rest < length s" by simp
  qed
next
  case (4 i len array s)
  show ?case
  proof (intro allI impI)
    fix vs rest assume a: "readArray_loop i len array s = Ok vs rest"
    show "length rest \<le> length s"
    proof (cases "i < len")
      case True
      with a 4(1) obtain v r1 where
        r: "Read s = Ok v r1" and l: "readArray_loop (i + 1) len (array[i := v]) r1 = Ok vs rest"
        by (auto simp: readArray_loop.psimps split: reading.splits)
      from 4(2)[OF True] r have "length r1 < length s" by blast
      moreover from 4(3)[OF True r] l have "length rest \<le> length r1" by blast
      ultimately show ?thesis by simp
    next
      case False
      with a 4(1) show ?thesis by (simp add: readArray_loop.psimps)
    qed
  qed
qed

termination Read
proof (relation "measure (\<lambda>x. case x of
          Inl s \<Rightarrow> 2 * length s
        | Inr (Inl s) \<Rightarrow> 2 * length s + 1
        | Inr (Inr (i, len, array, s)) \<Rightarrow> 2 * length s + 1)", goal_cases)
  case 1
  show ?case by simp
next
  case (2 typeByte s)
  show ?case by simp
next
  case (3 s b x y x2)
  then have "length y < length s" by (auto dest: readLine_shorter)
  then show ?case by simp
next
  case (4 i len array s)
  show ?case by simp
next
  case (5 i len array s x31 x32)
  then have "length x32 < length s" using Read_shorter_dom(1) by blast
  then show ?case by simp
qed

declare readArray.simps [simp del] readArray_loop.simps [simp del]

text \<open>The same fact for the total functions.\<close>

lemma Read_shorter_all:
  "\<forall>v rest. Read s = Ok v rest \<longrightarrow> length rest < length s"
  "\<forall>v rest. readArray s' = Ok v rest \<longrightarrow> length rest < length s'"
  "\<forall>vs rest. readArray_loop i len array s'' = Ok vs rest \<longrightarrow> length rest \<le> length s''"
proof (induction s and s' and i len array s'' rule: Read_readArray_readArray_loop.induct)
  case 1
  then show ?case by simp
next
  case (2 typeByte s)
  then show ?case
    by (auto dest: readSimpleString_shorter readError_shorter
        readInteger_shorter readBulkString_shorter split: if_splits)
next
  case (3 s)
  show ?case
  proof (intro allI impI)
    fix v rest assume a: "readArray s = Ok v rest"
    from a obtain line r1 len arr where
      l: "readLine s = Inr (line, r1)" and
      c: "line = ''-1'' \<and> rest = r1 \<or>
          line \<noteq> ''-1'' \<and> Atoi line = Some len \<and> \<not> len < 0 \<and>
          readArray_loop 0 (nat len) (replicate (nat len) zeroValue) r1 = Ok arr rest"
      by (auto simp: readArray.simps split: sum.splits option.splits if_splits reading.splits)
    from l have "length r1 < length s" by (rule readLine_shorter)
    moreover from c 3 [OF l] have "length rest \<le> length r1" by auto
    ultimately show "length rest < length s" by simp
  qed
next
  case (4 i len array s)
  show ?case
  proof (intro allI impI)
    fix vs rest assume a: "readArray_loop i len array s = Ok vs rest"
    show "length rest \<le> length s"
    proof (cases "i < len")
      case True
      with a obtain v r1 where
        r: "Read s = Ok v r1" and l: "readArray_loop (i + 1) len (array[i := v]) r1 = Ok vs rest"
        by (auto simp: readArray_loop.simps [of i len array s] split: reading.splits)
      from 4(1) [OF True] r have "length r1 < length s" by blast
      moreover from 4(2) [OF True r] l have "length rest \<le> length r1" by blast
      ultimately show ?thesis by simp
    next
      case False
      with a show ?thesis by (simp add: readArray_loop.simps [of i len array s])
    qed
  qed
qed

lemma Read_shorter: "Read s = Ok v rest \<Longrightarrow> length rest < length s"
  using Read_shorter_all(1) by blast

subsection \<open>The writer\<close>

text \<open>
  The writer formats into the connection with \<^verbatim>\<open>fmt.Fprintf\<close>. A writing function
  returns the bytes it has written and the error it returns, if any. The sink accepts
  every write, so the only error is the one \<open>Write\<close> itself builds for a Type it does
  not know; \<open>writeArray\<close> stops at the first element that returns it, with the bytes
  before it already written.
\<close>

definition writeSimpleString :: "string \<Rightarrow> string \<times> error option" where
  "writeSimpleString s = (''+'' @ s @ CRLF, None)"

definition writeError :: "string \<Rightarrow> string \<times> error option" where
  "writeError s = (''-'' @ s @ CRLF, None)"

definition writeInteger :: "64 word \<Rightarrow> string \<times> error option" where
  "writeInteger n = ('':'' @ FormatInt (sint n) @ CRLF, None)"

definition writeBulkString :: "string \<Rightarrow> string \<times> error option" where
  "writeBulkString s = (''$'' @ FormatInt (int (length s)) @ CRLF @ s @ CRLF, None)"

definition writeNullBulkString :: "string \<times> error option" where
  "writeNullBulkString = (''$-1'' @ CRLF, None)"

definition writeNullArray :: "string \<times> error option" where
  "writeNullArray = (''*-1'' @ CRLF, None)"

fun Write :: "Value \<Rightarrow> string \<times> error option"
  and writeArray :: "Value list \<Rightarrow> string \<times> error option"
  and writeArray_loop :: "Value list \<Rightarrow> string \<times> error option"
where
  "Write (Value t str num bulk array null) =
     (if t = STRING then writeSimpleString str
      else if t = ERROR then writeError str
      else if t = INTEGER then writeInteger num
      else if t = BULK then
        (if null then writeNullBulkString else writeBulkString bulk)
      else if t = ARRAY then
        (if null then writeNullArray else writeArray array)
      else ([], Some (UnknownValueType t)))"
| "writeArray arr =
     (case writeArray_loop arr of
        (out, err) \<Rightarrow> (''*'' @ FormatInt (int (length arr)) @ CRLF @ out, err))"
| "writeArray_loop [] = ([], None)"
| "writeArray_loop (val # arr) =
     (case Write val of
        (out, Some err) \<Rightarrow> (out, Some err)
      | (out, None) \<Rightarrow> (case writeArray_loop arr of (out', err) \<Rightarrow> (out @ out', err)))"

lemmas writer_defs =
  writeSimpleString_def writeError_def writeInteger_def writeBulkString_def
  writeNullBulkString_def writeNullArray_def

declare writer_defs [simp]

section \<open>The value model and the data store (package server)\<close>

text \<open>
  An instant of \<^verbatim>\<open>time.Time\<close> is a point on a line; \<^verbatim>\<open>a.After(b)\<close> is \<open>b < a\<close>. Every
  function that asks \<^verbatim>\<open>time.Now()\<close> takes the instant as its first argument \<open>now\<close>. The
  two store accessors ask twice, the second time only for an entry the first call found
  expired; the clock does not run backwards, so the entry is expired then as well, and
  one instant stands for both calls.
\<close>

type_synonym time = int

text \<open>Scores of the sorted set are \<^verbatim>\<open>float64\<close>; no function reads or writes them.\<close>

typedecl float64

text \<open>
  The struct \<^verbatim>\<open>RedisValue\<close>. A nil map is the empty map, a nil slice the empty list, a
  nil \<^verbatim>\<open>ExpiresAt\<close> is \<open>None\<close>.
\<close>

record RedisValue =
  Type :: string
  String :: string
  List :: "string list"
  Set :: "string \<rightharpoonup> bool"
  Hash :: "string \<rightharpoonup> string"
  ZSet :: "string \<rightharpoonup> float64"
  ExpiresAt :: "time option"

definition NewStringValue :: "string \<Rightarrow> RedisValue" where
  "NewStringValue s =
     \<lparr>Type = ''string'', String = s, List = [], Set = Map.empty, Hash = Map.empty,
      ZSet = Map.empty, ExpiresAt = None\<rparr>"

definition NewListValue :: RedisValue where
  "NewListValue =
     \<lparr>Type = ''list'', String = [], List = [], Set = Map.empty, Hash = Map.empty,
      ZSet = Map.empty, ExpiresAt = None\<rparr>"

definition IsExpired :: "time \<Rightarrow> RedisValue \<Rightarrow> bool" where
  "IsExpired now rv = (case ExpiresAt rv of None \<Rightarrow> False | Some t \<Rightarrow> t < now)"

text \<open>
  The list methods have a pointer receiver and assign to \<^verbatim>\<open>rv.List\<close>: each returns the
  value it leaves behind the pointer together with its Go results.
\<close>

definition ListPush :: "RedisValue \<Rightarrow> string \<Rightarrow> bool \<Rightarrow> RedisValue \<times> int" where
  "ListPush rv v left =
     (if RedisValue.Type rv \<noteq> ''list'' then (rv, - 1)
      else let rv' = (if left then rv\<lparr>List := [v] @ List rv\<rparr> else rv\<lparr>List := List rv @ [v]\<rparr>)
           in (rv', int (length (List rv'))))"

definition ListPop :: "RedisValue \<Rightarrow> bool \<Rightarrow> RedisValue \<times> string \<times> bool" where
  "ListPop rv left =
     (if RedisValue.Type rv \<noteq> ''list'' \<or> length (List rv) = 0 then (rv, [], False)
      else if left then (rv\<lparr>List := drop 1 (List rv)\<rparr>, List rv ! 0, True)
      else (rv\<lparr>List := take (length (List rv) - 1) (List rv)\<rparr>,
            List rv ! (length (List rv) - 1), True))"

definition ListLength :: "RedisValue \<Rightarrow> int" where
  "ListLength rv = (if RedisValue.Type rv \<noteq> ''list'' then 0 else int (length (List rv)))"

text \<open>
  The struct \<^verbatim>\<open>Database\<close>: the map from keys to pointers to values. Every pointer stored
  in the map is fresh when it is stored (\<^verbatim>\<open>Set\<close> stores the result of \<open>NewStringValue\<close>,
  and the only caller of \<open>SetValue\<close> stores the result of \<open>NewListValue\<close>), so no two keys
  share a value and the map is modelled as holding the values. The lock is not
  modelled: operations run one after the other. The method \<^verbatim>\<open>Set\<close> is \<open>Set_db\<close> here,
  \<open>Set\<close> being a field of \<open>RedisValue\<close>. An accessor that may delete an expired key
  returns the store it leaves next to its Go results.
\<close>

record Database =
  data :: "string \<rightharpoonup> RedisValue"

definition NewDatabase :: Database where
  "NewDatabase = \<lparr>data = Map.empty\<rparr>"

definition Set_db :: "string \<Rightarrow> string \<Rightarrow> Database \<Rightarrow> Database" where
  "Set_db key v db = db\<lparr>data := (data db)(key \<mapsto> NewStringValue v)\<rparr>"

definition Get :: "time \<Rightarrow> string \<Rightarrow> Database \<Rightarrow> (string \<times> bool) \<times> Database" where
  "Get now key db =
     (case data db key of
        None \<Rightarrow> (([], False), db)
      | Some val \<Rightarrow>
          if IsExpired now val then (([], False), db\<lparr>data := (data db)(key := None)\<rparr>)
          else if RedisValue.Type val \<noteq> ''string'' then (([], False), db)
          else ((String val, True), db))"

definition GetValue :: "time \<Rightarrow> string \<Rightarrow> Database \<Rightarrow> RedisValue option \<times> Database" where
  "GetValue now key db =
     (case data db key of
        None \<Rightarrow> (None, db)
      | Some val \<Rightarrow>
          if IsExpired now val then (None, db\<lparr>data := (data db)(key := None)\<rparr>)
          else (Some val, db))"

definition SetValue :: "string \<Rightarrow> RedisValue \<Rightarrow> Database \<Rightarrow> Database" where
  "SetValue key v db = db\<lparr>data := (data db)(key \<mapsto> v)\<rparr>"

definition Del :: "string \<Rightarrow> Database \<Rightarrow> bool \<times> Database" where
  "Del key db =
     (case data db key of
        None \<Rightarrow> (False, db)
      | Some val \<Rightarrow> (True, db\<lparr>data := (data db)(key := None)\<rparr>))"

section \<open>The command engine (package server)\<close>

text \<open>
  A handler returns its reply and leaves the store changed; an index or slice expression
  out of range would panic. A handler is a function from the store to a panic or the
  reply with the new store. \<open>index\<close> is Go's \<^verbatim>\<open>xs[i]\<close>.
\<close>

definition index :: "'a list \<Rightarrow> nat \<Rightarrow> panic + 'a" where
  "index xs i = (if i < length xs then Inr (xs ! i) else Inl IndexOutOfRange)"

type_synonym handled = "panic + (Value \<times> Database)"

abbreviation wrongtype :: Value where
  "wrongtype \<equiv> NewError ''WRONGTYPE Operation against a key holding the wrong kind of value''"

definition handlePing :: "Value list \<Rightarrow> Database \<Rightarrow> handled" where
  "handlePing args db =
     (if length args = 0 then Inr (NewSimpleString ''PONG'', db)
      else if length args = 1 then
        (case index args 0 of
           Inl p \<Rightarrow> Inl p
         | Inr a0 \<Rightarrow> Inr (NewBulkString (Bulk a0), db))
      else Inr (NewError ''ERR wrong number of arguments for 'ping' command'', db))"

definition handleSet :: "Value list \<Rightarrow> Database \<Rightarrow> handled" where
  "handleSet args db =
     (if length args \<noteq> 2
      then Inr (NewError ''ERR wrong number of arguments for 'set' command'', db)
      else (case index args 0 of
         Inl p \<Rightarrow> Inl p
       | Inr a0 \<Rightarrow>
           (case index args 1 of
              Inl p \<Rightarrow> Inl p
            | Inr a1 \<Rightarrow> Inr (NewSimpleString ''OK'', Set_db (Bulk a0) (Bulk a1) db))))"

definition handleGet :: "time \<Rightarrow> Value list \<Rightarrow> Database \<Rightarrow> handled" where
  "handleGet now args db =
     (if length args \<noteq> 1
      then Inr (NewError ''ERR wrong number of arguments for 'get' command'', db)
      else (case index args 0 of
         Inl p \<Rightarrow> Inl p
       | Inr a0 \<Rightarrow>
           (case Get now (Bulk a0) db of
              ((v, exists), db') \<Rightarrow>
                if \<not> exists then Inr (NewNullBulkString, db')
                else Inr (NewBulkString v, db'))))"

definition handleDel :: "Value list \<Rightarrow> Database \<Rightarrow> handled" where
  "handleDel args db =
     (if length args \<noteq> 1
      then Inr (NewError ''ERR wrong number of arguments for 'del' command'', db)
      else (case index args 0 of
         Inl p \<Rightarrow> Inl p
       | Inr a0 \<Rightarrow>
           (case Del (Bulk a0) db of
              (deleted, db') \<Rightarrow>
                if deleted then Inr (NewInteger 1, db') else Inr (NewInteger 0, db'))))"

text \<open>
  The loop \<^verbatim>\<open>for i := 1; i < len(args); i++ { val.ListPush(args[i].Bulk, left) }\<close> of the
  two push handlers, on the value behind \<open>val\<close>.
\<close>

function push_loop :: "bool \<Rightarrow> nat \<Rightarrow> Value list \<Rightarrow> RedisValue \<Rightarrow> panic + RedisValue" where
  "push_loop left i args val =
     (if i < length args
      then (case index args i of
              Inl p \<Rightarrow> Inl p
            | Inr a \<Rightarrow> push_loop left (i + 1) args (fst (ListPush val (Bulk a) left)))
      else Inr val)"
  by pat_completeness auto
termination
  by (relation "measure (\<lambda>(left, i, args, val). length args - i)") auto

declare push_loop.simps [simp del]

text \<open>
  In the push and pop handlers \<open>val\<close> is a pointer, and the list methods write to the
  value behind it. The map shows what they wrote only when it holds that pointer under
  \<open>key\<close>: because \<open>GetValue\<close> returned the map's own pointer, or because \<open>SetValue\<close> has
  stored the new list. \<open>write_through\<close> is that effect on the store: the value \<open>val\<close>
  the handler holds has become \<open>val'\<close>; the entry under \<open>key\<close> becomes \<open>val'\<close> when the
  map holds \<open>val\<close> there, and a map that does not hold it is left as it is. The model
  has values where the code has pointers, so holding the pointer is read as holding an
  equal value under \<open>key\<close>; both handlers hold no other pointer than the one under
  \<open>key\<close>.
\<close>

definition write_through :: "string \<Rightarrow> RedisValue \<Rightarrow> RedisValue \<Rightarrow> Database \<Rightarrow> Database" where
  "write_through key val val' db =
     (if data db key = Some val then db\<lparr>data := (data db)(key \<mapsto> val')\<rparr> else db)"

text \<open>
  \<open>push_values\<close> is the common end of the two push handlers: the loop and the reply
  with \<open>val.ListLength()\<close>.
\<close>

definition push_values ::
  "bool \<Rightarrow> string \<Rightarrow> Value list \<Rightarrow> RedisValue \<Rightarrow> Database \<Rightarrow> handled" where
  "push_values left key args val db =
     (case push_loop left 1 args val of
        Inl p \<Rightarrow> Inl p
      | Inr val' \<Rightarrow>
          Inr (NewInteger (word_of_int (ListLength val')), write_through key val val' db))"

definition handleLPush :: "time \<Rightarrow> Value list \<Rightarrow> Database \<Rightarrow> handled" where
  "handleLPush now args db =
     (if length args < 2
      then Inr (NewError ''ERR wrong number of arguments for 'lpush' command'', db)
      else (case index args 0 of
         Inl p \<Rightarrow> Inl p
       | Inr a0 \<Rightarrow>
           let key = Bulk a0 in
           (case GetValue now key db of
              (None, db') \<Rightarrow>
                push_values True key args NewListValue (SetValue key NewListValue db')
            | (Some val, db') \<Rightarrow>
                if RedisValue.Type val \<noteq> ''list'' then Inr (wrongtype, db')
                else push_values True key args val db')))"

definition handleRPush :: "time \<Rightarrow> Value list \<Rightarrow> Database \<Rightarrow> handled" where
  "handleRPush now args db =
     (if length args < 2
      then Inr (NewError ''ERR wrong number of arguments for 'rpush' command'', db)
      else (case index args 0 of
         Inl p \<Rightarrow> Inl p
       | Inr a0 \<Rightarrow>
           let key = Bulk a0 in
           (case GetValue now key db of
              (None, db') \<Rightarrow>
                push_values False key args NewListValue (SetValue key NewListValue db')
            | (Some val, db') \<Rightarrow>
                if RedisValue.Type val \<noteq> ''list'' then Inr (wrongtype, db')
                else push_values False key args val db')))"

definition handleLPop :: "time \<Rightarrow> Value list \<Rightarrow> Database \<Rightarrow> handled" where
  "handleLPop now args db =
     (if length args \<noteq> 1
      then Inr (NewError ''ERR wrong number of arguments for 'lpop' command'', db)
      else (case index args 0 of
         Inl p \<Rightarrow> Inl p
       | Inr a0 \<Rightarrow>
           let key = Bulk a0 in
           (case GetValue now key db of
              (None, db') \<Rightarrow> Inr (NewNullBulkString, db')
            | (Some val, db') \<Rightarrow>
                if RedisValue.Type val \<noteq> ''list'' then Inr (wrongtype, db')
                else (case ListPop val True of
                   (val', v, popped) \<Rightarrow>
                     let db'' = write_through key val val' db' in
                     if \<not> popped then Inr (NewNullBulkString, db'')
                     else if ListLength val' = 0 then Inr (NewBulkString v, snd (Del key db''))
                     else Inr (NewBulkString v, db'')))))"

definition handleRPop :: "time \<Rightarrow> Value list \<Rightarrow> Database \<Rightarrow> handled" where
  "handleRPop now args db =
     (if length args \<noteq> 1
      then Inr (NewError ''ERR wrong number of arguments for 'rpop' command'', db)
      else (case index args 0 of
         Inl p \<Rightarrow> Inl p
       | Inr a0 \<Rightarrow>
           let key = Bulk a0 in
           (case GetValue now key db of
              (None, db') \<Rightarrow> Inr (NewNullBulkString, db')
            | (Some val, db') \<Rightarrow>
                if RedisValue.Type val \<noteq> ''list'' then Inr (wrongtype, db')
                else (case ListPop val False of
                   (val', v, popped) \<Rightarrow>
                     let db'' = write_through key val val' db' in
                     if \<not> popped then Inr (NewNullBulkString, db'')
                     else if ListLength val' = 0 then Inr (NewBulkString v, snd (Del key db''))
                     else Inr (NewBulkString v, db'')))))"

definition handleLLen :: "time \<Rightarrow> Value list \<Rightarrow> Database \<Rightarrow> handled" where
  "handleLLen now args db =
     (if length args \<noteq> 1
      then Inr (NewError ''ERR wrong number of arguments for 'llen' command'', db)
      else (case index args 0 of
         Inl p \<Rightarrow> Inl p
       | Inr a0 \<Rightarrow>
           (case GetValue now (Bulk a0) db of
              (None, db') \<Rightarrow> Inr (NewInteger 0, db')
            | (Some val, db') \<Rightarrow>
                if RedisValue.Type val \<noteq> ''list'' then Inr (wrongtype, db')
                else Inr (NewInteger (word_of_int (ListLength val)), db'))))"

definition handleType :: "time \<Rightarrow> Value list \<Rightarrow> Database \<Rightarrow> handled" where
  "handleType now args db =
     (if length args \<noteq> 1
      then Inr (NewError ''ERR wrong number of arguments for 'type' command'', db)
      else (case index args 0 of
         Inl p \<Rightarrow> Inl p
       | Inr a0 \<Rightarrow>
           (case GetValue now (Bulk a0) db of
              (None, db') \<Rightarrow> Inr (NewSimpleString ''none'', db')
            | (Some val, db') \<Rightarrow> Inr (NewSimpleString (RedisValue.Type val), db'))))"

definition processCommand :: "time \<Rightarrow> Value \<Rightarrow> Database \<Rightarrow> handled" where
  "processCommand now v db =
     (if Value.Type v \<noteq> ''array'' \<or> length (Array v) = 0
      then Inr (NewError ''ERR invalid command format'', db)
      else (case index (Array v) 0 of
         Inl p \<Rightarrow> Inl p
       | Inr v0 \<Rightarrow>
           let command = Bulk v0; args = drop 1 (Array v) in
           if command = ''PING'' then handlePing args db
           else if command = ''SET'' then handleSet args db
           else if command = ''GET'' then handleGet now args db
           else if command = ''DEL'' then handleDel args db
           else if command = ''LPUSH'' then handleLPush now args db
           else if command = ''RPUSH'' then handleRPush now args db
           else if command = ''LPOP'' then handleLPop now args db
           else if command = ''RPOP'' then handleRPop now args db
           else if command = ''LLEN'' then handleLLen now args db
           else if command = ''TYPE'' then handleType now args db
           else if command = ''QUIT'' then Inr (NewSimpleString ''OK'', db)
           else Inr (NewError (''ERR unknown command '' @ [CHR 0x27] @ command @ [CHR 0x27]), db)))"

text \<open>
  A request as the repository's client builds it from the words of a line: an Array of
  BulkStrings, the command name first.
\<close>

definition request :: "string list \<Rightarrow> Value" where
  "request parts = NewArray (map NewBulkString parts)"

text \<open>
  The loop of \<open>handleClient\<close> on a connection whose incoming bytes are \<open>input\<close>. \<open>out\<close>
  collects the bytes written to the connection, which accepts every write. \<open>clock\<close>
  gives the instant at which the \<open>n\<close>-th request of the connection is processed. The
  loop ends (\<open>Closed\<close>: the deferred \<^verbatim>\<open>conn.Close()\<close> runs) when \<open>Read\<close> or \<open>Write\<close>
  returns an error; a panic ends the process (\<open>Crashed\<close>).
\<close>

datatype connection = Closed (sent: string) (store: Database) | Crashed panic

function handleClient :: "(nat \<Rightarrow> time) \<Rightarrow> nat \<Rightarrow> string \<Rightarrow> Database \<Rightarrow> string \<Rightarrow> connection" where
  "handleClient clock n input db out =
     (case Read input of
        Panicked p \<Rightarrow> Crashed p
      | Failed err \<Rightarrow> Closed out db
      | Ok v rest \<Rightarrow>
          (case processCommand (clock n) v db of
             Inl p \<Rightarrow> Crashed p
           | Inr (response, db') \<Rightarrow>
               (case Write response of
                  (bytes, Some err) \<Rightarrow> Closed (out @ bytes) db'
                | (bytes, None) \<Rightarrow> handleClient clock (n + 1) rest db' (out @ bytes))))"
  by pat_completeness auto

termination handleClient
  by (relation "measure (\<lambda>(clock, n, input, db, out). length input)")
     (auto dest: Read_shorter)

declare handleClient.simps [simp del]

text \<open>
  A sequence of dispatched commands, each at its own instant, from a given store.
\<close>

fun dispatch_all :: "Database \<Rightarrow> (time \<times> Value) list \<Rightarrow> panic + Database" where
  "dispatch_all db [] = Inr db"
| "dispatch_all db ((now, v) # reqs) =
     (case processCommand now v db of
        Inl p \<Rightarrow> Inl p
      | Inr (reply, db') \<Rightarrow> dispatch_all db' reqs)"

section \<open>Predicates of the statements\<close>

text \<open>
  A value is constructible when the constructor helpers build it, an Array from
  constructible elements.
\<close>

fun constructible :: "Value \<Rightarrow> bool" where
  "constructible (Value t str num bulk array null) =
     (let v = Value t str num bulk array null
      in v = NewSimpleString str \<or> v = NewError str \<or> v = NewInteger num
         \<or> v = NewBulkString bulk \<or> v = NewNullBulkString
         \<or> (v = NewArray array \<and> list_all constructible array) \<or> v = NewNullArray)"

text \<open>No SimpleString or Error text in the value holds a line feed.\<close>

fun line_free :: "Value \<Rightarrow> bool" where
  "line_free (Value t str num bulk array null) =
     ((if t = STRING \<or> t = ERROR then LF \<notin> set str else True) \<and> list_all line_free array)"

text \<open>
  The length of every BulkString and of every Array in the value is one Go's \<^verbatim>\<open>int\<close> holds,
  as \<^verbatim>\<open>len\<close> of every Go string and slice is.
\<close>

fun len_fits_int :: "Value \<Rightarrow> bool" where
  "len_fits_int (Value t str num bulk array null) =
     (length bulk < 2 ^ 63 \<and> length array < 2 ^ 63 \<and> list_all len_fits_int array)"

text \<open>
  What the store may hold: a String entry, or a List entry with at least one element.
\<close>

definition entry_ok :: "RedisValue \<Rightarrow> bool" where
  "entry_ok e = (RedisValue.Type e = ''string'' \<or> (RedisValue.Type e = ''list'' \<and> List e \<noteq> []))"

definition store_ok :: "Database \<Rightarrow> bool" where
  "store_ok db = (\<forall>k e. data db k = Some e \<longrightarrow> entry_ok e)"

section \<open>Lemmas about the codec\<close>

lemma digit_val_digit_char: "d < 10 \<Longrightarrow> digit_val (digit_char d) = d"
  by (simp add: digit_val_def digit_char_def)

lemma is_digit_digit_char: "d < 10 \<Longrightarrow> is_digit (digit_char d)"
  by (simp add: is_digit_def digit_char_def)

lemma decimal_not_Nil: "decimal n \<noteq> []"
  by (subst decimal.simps) simp

lemma decimal_digits: "list_all is_digit (decimal n)"
proof (induction n rule: decimal.induct)
  case (1 n)
  show ?case
  proof (cases "n < 10")
    case True
    then show ?thesis by (subst decimal.simps) (simp add: is_digit_digit_char)
  next
    case False
    with 1 show ?thesis by (subst decimal.simps) (simp add: is_digit_digit_char)
  qed
qed

lemma digits_val_snoc: "digits_val (ds @ [c]) = digits_val ds * 10 + digit_val c"
  by (simp add: digits_val_def)

lemma digits_val_decimal: "digits_val (decimal n) = n"
proof (induction n rule: decimal.induct)
  case (1 n)
  show ?case
  proof (cases "n < 10")
    case True
    then show ?thesis
      by (subst decimal.simps) (simp add: digits_val_def digit_val_digit_char)
  next
    case False
    with 1 have "digits_val (decimal (n div 10)) = n div 10" by simp
    with False show ?thesis
      by (subst decimal.simps) (simp add: digits_val_snoc digit_val_digit_char)
  qed
qed

lemma is_digit_not_sign: "is_digit c \<Longrightarrow> c \<noteq> CHR ''-'' \<and> c \<noteq> CHR ''+'' \<and> c \<noteq> LF"
  by (auto simp: is_digit_def)

lemma hd_decimal_digit: "is_digit (hd (decimal n))"
  using decimal_digits [of n] decimal_not_Nil [of n]
  by (cases "decimal n") auto

lemma Atoi_FormatInt:
  assumes "- (2 ^ 63) \<le> i" "i \<le> 2 ^ 63 - 1"
  shows "Atoi (FormatInt i) = Some i"
proof (cases "i < 0")
  case True
  with assms show ?thesis
    by (simp add: Atoi_def FormatInt_def decimal_not_Nil decimal_digits digits_val_decimal)
next
  case False
  have "hd (decimal (nat i)) \<noteq> CHR ''-''" "hd (decimal (nat i)) \<noteq> CHR ''+''"
    using is_digit_not_sign [OF hd_decimal_digit] by blast+
  with False assms show ?thesis
    by (simp add: Atoi_def FormatInt_def decimal_not_Nil decimal_digits digits_val_decimal)
qed

lemma LF_notin_decimal: "LF \<notin> set (decimal n)"
  using decimal_digits [of n] is_digit_not_sign by (auto simp: list_all_iff)

lemma LF_notin_FormatInt: "LF \<notin> set (FormatInt i)"
  by (simp add: FormatInt_def LF_notin_decimal)

lemma FormatInt_nat_not_minus_one: "FormatInt (int n) \<noteq> ''-1''"
proof
  assume "FormatInt (int n) = ''-1''"
  then have "hd (decimal n) = CHR ''-''" by (simp add: FormatInt_def)
  with is_digit_not_sign [OF hd_decimal_digit, of n] show False by simp
qed

lemma readLine_line:
  assumes "LF \<notin> set line"
  shows "readLine (line @ CR # LF # rest) = Inr (line, rest)"
proof -
  from assms have all: "\<forall>c \<in> set line. c \<noteq> LF" by auto
  have t: "takeWhile (\<lambda>c. c \<noteq> LF) (line @ CR # LF # rest) = line @ [CR]"
    using all by (simp add: takeWhile_append2)
  have d: "dropWhile (\<lambda>c. c \<noteq> LF) (line @ CR # LF # rest) = LF # rest"
    using all by (simp add: dropWhile_append2)
  show ?thesis
    by (simp add: readLine_def ReadString_def t d TrimSuffix_def)
qed

lemma readArray_loop_done: "readArray_loop n n array s = Ok array s"
  by (subst readArray_loop.simps) simp

lemma readArray_loop_step:
  "i < len \<Longrightarrow> Read s = Ok val rest \<Longrightarrow>
   readArray_loop i len array s = readArray_loop (i + 1) len (array[i := val]) rest"
  by (subst readArray_loop.simps) simp

lemma loop_roundtrip:
  assumes "\<And>x rest. x \<in> set vs \<Longrightarrow>
              snd (Write x) = None \<and> Read (fst (Write x) @ rest) = Ok x rest"
  shows "snd (writeArray_loop vs) = None \<and>
         readArray_loop (length pre) (length pre + length vs)
           (pre @ replicate (length vs) zeroValue) (fst (writeArray_loop vs) @ rest)
         = Ok (pre @ vs) rest"
  using assms
proof (induction vs arbitrary: pre)
  case Nil
  show ?case by (simp add: readArray_loop_done)
next
  case (Cons x xs)
  have wx: "snd (Write x) = None" and
    rx: "\<And>r. Read (fst (Write x) @ r) = Ok x r"
    using Cons.prems [of x] by simp_all
  have ih: "snd (writeArray_loop xs) = None \<and>
      readArray_loop (length (pre @ [x])) (length (pre @ [x]) + length xs)
        ((pre @ [x]) @ replicate (length xs) zeroValue) (fst (writeArray_loop xs) @ rest)
      = Ok ((pre @ [x]) @ xs) rest"
    by (rule Cons.IH) (simp add: Cons.prems)
  obtain ox where ox: "Write x = (ox, None)" using wx by (cases "Write x") auto
  obtain oxs where oxs: "writeArray_loop xs = (oxs, None)"
    using ih by (cases "writeArray_loop xs") auto
  have w: "writeArray_loop (x # xs) = (ox @ oxs, None)" by (simp add: ox oxs)
  have r: "Read (ox @ oxs @ rest) = Ok x (oxs @ rest)" using rx [of "oxs @ rest"] ox by simp
  have "readArray_loop (length pre) (length pre + length (x # xs))
          (pre @ replicate (length (x # xs)) zeroValue) ((ox @ oxs) @ rest)
        = readArray_loop (length pre + 1) (length pre + length (x # xs))
          ((pre @ replicate (length (x # xs)) zeroValue)[length pre := x]) (oxs @ rest)"
    using r by (simp add: readArray_loop_step)
  also have "\<dots> = Ok (pre @ x # xs) rest" using ih oxs by simp
  finally show ?case using w by simp
qed

lemma readArray_roundtrip:
  assumes "\<And>x rest. x \<in> set vs \<Longrightarrow>
              snd (Write x) = None \<and> Read (fst (Write x) @ rest) = Ok x rest"
    and "length vs < 2 ^ 63"
  shows "snd (writeArray vs) = None \<and>
         readArray (tl (fst (writeArray vs)) @ rest) = Ok (NewArray vs) rest \<and>
         hd (fst (writeArray vs)) = CHR ''*'' \<and> fst (writeArray vs) \<noteq> []"
proof -
  have l: "snd (writeArray_loop vs) = None \<and>
         readArray_loop 0 (length vs) (replicate (length vs) zeroValue)
            (fst (writeArray_loop vs) @ rest) = Ok vs rest"
    using loop_roundtrip [of vs "[]" rest] assms(1) by simp
  obtain out where out: "writeArray_loop vs = (out, None)"
    using l by (cases "writeArray_loop vs") auto
  have a: "Atoi (FormatInt (int (length vs))) = Some (int (length vs))"
    using assms(2) by (intro Atoi_FormatInt) simp_all
  have rl: "readLine (FormatInt (int (length vs)) @ CR # LF # out @ rest)
            = Inr (FormatInt (int (length vs)), out @ rest)"
    by (rule readLine_line) (rule LF_notin_FormatInt)
  show ?thesis
    using l by (simp add: out readArray.simps rl a FormatInt_nat_not_minus_one NewArray_def)
qed

lemma sint64_range: "- (2 ^ 63) \<le> sint (w :: 64 word) \<and> sint w \<le> 2 ^ 63 - 1"
  using sint_ge [of w] sint_lt [of w] by simp

lemma Read_Write_aux:
  "constructible v \<Longrightarrow> line_free v \<Longrightarrow> len_fits_int v \<Longrightarrow>
   snd (Write v) = None \<and> (\<forall>rest. Read (fst (Write v) @ rest) = Ok v rest)"
proof (induction v)
  case (Value t str num bulk array null)
  let ?v = "Value t str num bulk array null"
  from Value.prems(1) consider
      (str) "?v = NewSimpleString str" | (err) "?v = NewError str"
    | (int) "?v = NewInteger num" | (bulk) "?v = NewBulkString bulk"
    | (nbulk) "?v = NewNullBulkString"
    | (arr) "?v = NewArray array" "list_all constructible array"
    | (narr) "?v = NewNullArray"
    by (auto simp: Let_def)
  then show ?case
  proof cases
    case str
    with Value.prems(2) have "LF \<notin> set str" by (simp add: NewSimpleString_def)
    then show ?thesis using str
      by (simp add: NewSimpleString_def readSimpleString_def readLine_line)
  next
    case err
    with Value.prems(2) have "LF \<notin> set str" by (simp add: NewError_def)
    then show ?thesis using err
      by (simp add: NewError_def readError_def readLine_line)
  next
    case int
    have "Atoi (FormatInt (sint num)) = Some (sint num)"
      using sint64_range [of num] by (intro Atoi_FormatInt) simp_all
    then show ?thesis using int
      by (simp add: NewInteger_def readInteger_def readLine_line LF_notin_FormatInt)
  next
    case bulk
    from Value.prems(3) have "length bulk < 2 ^ 63" by simp
    then have a: "Atoi (FormatInt (int (length bulk))) = Some (int (length bulk))"
      by (intro Atoi_FormatInt) simp_all
    have rl: "\<And>r. readLine (FormatInt (int (length bulk)) @ CR # LF # r)
               = Inr (FormatInt (int (length bulk)), r)"
      by (rule readLine_line) (rule LF_notin_FormatInt)
    show ?thesis using bulk
      by (simp add: NewBulkString_def readBulkString_def a rl FormatInt_nat_not_minus_one
          ReadFull_def ReadByte_discard_def)
  next
    case nbulk
    have "\<And>r. readLine (''-1'' @ CR # LF # r) = Inr (''-1'', r)"
      by (rule readLine_line) simp
    then show ?thesis using nbulk
      by (simp add: NewNullBulkString_def readBulkString_def)
  next
    case arr
    have el: "\<And>x rest. x \<in> set array \<Longrightarrow>
        snd (Write x) = None \<and> Read (fst (Write x) @ rest) = Ok x rest"
    proof -
      fix x rest assume x: "x \<in> set array"
      with arr(2) Value.prems(2,3) have "constructible x" "line_free x" "len_fits_int x"
        by (auto simp: list_all_iff)
      with Value.IH [OF x] show "snd (Write x) = None \<and> Read (fst (Write x) @ rest) = Ok x rest"
        by blast
    qed
    from Value.prems(3) have len: "length array < 2 ^ 63" by simp
    have t: "t = ARRAY" "\<not> null" using arr(1) by (simp_all add: NewArray_def)
    have w: "Write ?v = writeArray array" using t by simp
    show ?thesis
    proof (intro conjI allI)
      show "snd (Write ?v) = None" using readArray_roundtrip [OF el len] w by simp
    next
      fix rest
      from readArray_roundtrip [OF el len, of rest] obtain out where
        o: "fst (writeArray array) = CHR ''*'' # out"
        and r: "readArray (out @ rest) = Ok (NewArray array) rest"
        by (cases "fst (writeArray array)") auto
      have "Read (fst (Write ?v) @ rest) = Read ((CHR ''*'' # out) @ rest)"
        by (simp only: w o)
      also have "\<dots> = readArray (out @ rest)" by simp
      also have "\<dots> = Ok ?v rest" using r arr(1) by simp
      finally show "Read (fst (Write ?v) @ rest) = Ok ?v rest" .
    qed
  next
    case narr
    have "\<And>r. readLine (''-1'' @ CR # LF # r) = Inr (''-1'', r)"
      by (rule readLine_line) simp
    then show ?thesis using narr
      by (simp add: NewNullArray_def readArray.simps)
  qed
qed

text \<open>Every value the reader returns is constructible.\<close>

lemma constructible_simps:
  "constructible (Value STRING line 0 [] [] False)"
  "constructible (Value ERROR line 0 [] [] False)"
  "constructible (Value INTEGER [] n [] [] False)"
  "constructible (Value BULK [] 0 bulk [] False)"
  "constructible (Value BULK [] 0 [] [] True)"
  "constructible (Value ARRAY [] 0 [] [] True)"
  "constructible (Value ARRAY [] 0 [] array False) = list_all constructible array"
  by (auto simp: NewSimpleString_def NewError_def NewInteger_def NewBulkString_def
      NewNullBulkString_def NewArray_def NewNullArray_def)

lemma Read_constructible_all:
  "\<forall>v rest. Read s = Ok v rest \<longrightarrow> constructible v"
  "\<forall>v rest. readArray s' = Ok v rest \<longrightarrow> constructible v"
  "\<forall>vs rest. readArray_loop i len array s'' = Ok vs rest \<longrightarrow>
     i \<le> len \<longrightarrow> length array = len \<longrightarrow> list_all constructible (take i array) \<longrightarrow>
     list_all constructible vs"
proof (induction s and s' and i len array s'' rule: Read_readArray_readArray_loop.induct)
  case 1
  then show ?case by simp
next
  case (2 typeByte s)
  then show ?case
    by (auto simp: readSimpleString_def readError_def readInteger_def readBulkString_def
        constructible_simps simp del: constructible.simps
        split: if_splits sum.splits option.splits)
next
  case (3 s)
  show ?case
  proof (intro allI impI)
    fix v rest assume a: "readArray s = Ok v rest"
    from a consider (null) "v = Value ARRAY [] 0 [] [] True"
      | (arr) line r1 len arr where "readLine s = Inr (line, r1)" "line \<noteq> ''-1''"
          "Atoi line = Some len" "\<not> len < 0"
          "readArray_loop 0 (nat len) (replicate (nat len) zeroValue) r1 = Ok arr rest"
          "v = Value ARRAY [] 0 [] arr False"
      by (auto simp: readArray.simps split: sum.splits option.splits if_splits reading.splits)
    then show "constructible v"
    proof cases
      case null
      then show ?thesis by (simp add: constructible_simps del: constructible.simps)
    next
      case arr
      from 3 [OF arr(1) _ arr(2,3,4)] arr(5) have "list_all constructible arr" by simp
      with arr(6) show ?thesis by (simp add: constructible_simps del: constructible.simps)
    qed
  qed
next
  case (4 i len array s)
  show ?case
  proof (intro allI impI)
    fix vs rest
    assume a: "readArray_loop i len array s = Ok vs rest" and le: "i \<le> len"
      and n: "length array = len" and c: "list_all constructible (take i array)"
    show "list_all constructible vs"
    proof (cases "i < len")
      case True
      with a obtain v r1 where
        r: "Read s = Ok v r1" and l: "readArray_loop (i + 1) len (array[i := v]) r1 = Ok vs rest"
        by (auto simp: readArray_loop.simps [of i len array s] split: reading.splits)
      from 4(1) [OF True] r have cv: "constructible v" by blast
      have "take (i + 1) (array[i := v]) = take i array @ [v]"
        using True n by (simp add: take_Suc_conv_app_nth)
      with c cv have "list_all constructible (take (i + 1) (array[i := v]))" by simp
      with 4(2) [OF True r] l True n show ?thesis by simp
    next
      case False
      with le have "i = len" by simp
      with a n c show ?thesis by (simp add: readArray_loop_done)
    qed
  qed
qed

lemma Read_constructible: "Read s = Ok v rest \<Longrightarrow> constructible v"
  using Read_constructible_all(1) by blast

section \<open>Lemmas about the command engine\<close>

lemma index_in_range: "i < length xs \<Longrightarrow> index xs i = Inr (xs ! i)"
  by (simp add: index_def)

lemma ListPush_list:
  "RedisValue.Type val = ''list'' \<Longrightarrow>
   fst (ListPush val v left) = val\<lparr>List := (if left then v # List val else List val @ [v])\<rparr>"
  by (simp add: ListPush_def Let_def)

lemma push_loop_list:
  "RedisValue.Type val = ''list'' \<Longrightarrow>
   push_loop left i args val =
     Inr (val\<lparr>List := (if left then rev (map Bulk (drop i args)) @ List val
                         else List val @ map Bulk (drop i args))\<rparr>)"
proof (induction left i args val rule: push_loop.induct)
  case (1 left i args val)
  show ?case
  proof (cases "i < length args")
    case True
    let ?val' = "fst (ListPush val (Bulk (args ! i)) left)"
    have d: "drop i args = args ! i # drop (i + 1) args"
      using True by (simp add: Cons_nth_drop_Suc)
    have v': "?val' = val\<lparr>List := (if left then Bulk (args ! i) # List val
                                     else List val @ [Bulk (args ! i)])\<rparr>"
      using "1.prems" by (rule ListPush_list)
    then have ty: "RedisValue.Type ?val' = ''list''" using "1.prems" by simp
    have "push_loop left i args val = push_loop left (i + 1) args ?val'"
      using True by (subst push_loop.simps) (simp add: index_in_range)
    also have "\<dots> = Inr (?val'\<lparr>List := (if left then rev (map Bulk (drop (i + 1) args)) @ List ?val'
                         else List ?val' @ map Bulk (drop (i + 1) args))\<rparr>)"
      using "1.IH" [OF True index_in_range [OF True] ty] .
    also have "\<dots> = Inr (val\<lparr>List := (if left then rev (map Bulk (drop i args)) @ List val
                         else List val @ map Bulk (drop i args))\<rparr>)"
      using "1.prems" by (simp add: ListPush_list d)
    finally show ?thesis .
  next
    case False
    then show ?thesis by (subst push_loop.simps) simp
  qed
qed

lemma push_loop_returns: "\<exists>val'. push_loop left i args val = Inr val'"
proof (induction left i args val rule: push_loop.induct)
  case (1 left i args val)
  show ?case
  proof (cases "i < length args")
    case True
    from "1.IH" [OF True index_in_range [OF True]] True show ?thesis
      by (subst push_loop.simps) (simp add: index_in_range)
  next
    case False
    then show ?thesis by (subst push_loop.simps) simp
  qed
qed

lemma processCommand_request:
  "processCommand now (request (name # args)) db =
     (let a = map NewBulkString args in
      if name = ''PING'' then handlePing a db
      else if name = ''SET'' then handleSet a db
      else if name = ''GET'' then handleGet now a db
      else if name = ''DEL'' then handleDel a db
      else if name = ''LPUSH'' then handleLPush now a db
      else if name = ''RPUSH'' then handleRPush now a db
      else if name = ''LPOP'' then handleLPop now a db
      else if name = ''RPOP'' then handleRPop now a db
      else if name = ''LLEN'' then handleLLen now a db
      else if name = ''TYPE'' then handleType now a db
      else if name = ''QUIT'' then Inr (NewSimpleString ''OK'', db)
      else Inr (NewError (''ERR unknown command '' @ [CHR 0x27] @ name @ [CHR 0x27]), db))"
  by (simp add: processCommand_def request_def NewArray_def index_def Let_def NewBulkString_def)

lemma Bulk_NewBulkString: "Bulk (NewBulkString s) = s"
  by (simp add: NewBulkString_def)

lemma map_Bulk_NewBulkString:
  "map Bulk (map NewBulkString vs) = vs" "map (Bulk \<circ> NewBulkString) vs = vs"
  by (induction vs) (simp_all add: Bulk_NewBulkString)

lemma write_through_held:
  "data db key = Some val \<Longrightarrow>
   write_through key val val' db = db\<lparr>data := (data db)(key \<mapsto> val')\<rparr>"
  by (simp add: write_through_def)

lemma GetValue_Some:
  "GetValue now key db = (Some val, db') \<Longrightarrow> data db' key = Some val"
  by (auto simp: GetValue_def split: option.splits if_splits)

lemma push_values_list:
  assumes "RedisValue.Type val = ''list''" and "data db k = Some val"
  shows "push_values left k (a # map NewBulkString vs) val db =
     Inr (NewInteger (of_nat (length (List val) + length vs)),
          db\<lparr>data := (data db)(k \<mapsto>
                val\<lparr>List := (if left then rev vs @ List val else List val @ vs)\<rparr>)\<rparr>)"
  using assms
  by (simp add: push_values_def push_loop_list map_Bulk_NewBulkString ListLength_def
      write_through_held ac_simps)

lemma GetValue_absent: "data db k = None \<Longrightarrow> GetValue now k db = (None, db)"
  by (simp add: GetValue_def)

lemma GetValue_live:
  "data db k = Some e \<Longrightarrow> \<not> IsExpired now e \<Longrightarrow> GetValue now k db = (Some e, db)"
  by (simp add: GetValue_def)

lemma GetValue_expired:
  "data db k = Some e \<Longrightarrow> IsExpired now e \<Longrightarrow>
   GetValue now k db = (None, db\<lparr>data := (data db)(k := None)\<rparr>)"
  by (simp add: GetValue_def)

lemma handleLPush_absent:
  assumes "data db k = None" and "vs \<noteq> []"
  shows "handleLPush now (map NewBulkString (k # vs)) db =
     Inr (NewInteger (of_nat (length vs)),
          db\<lparr>data := (data db)(k \<mapsto> NewListValue\<lparr>List := rev vs\<rparr>)\<rparr>)"
proof -
  have l: "\<not> length (map NewBulkString (k # vs)) < 2" using assms(2) by (cases vs) simp_all
  have t: "RedisValue.Type NewListValue = ''list''" "List NewListValue = []"
    by (simp_all add: NewListValue_def)
  show ?thesis
    unfolding handleLPush_def
    by (simp only: l if_False) (simp add: index_def Bulk_NewBulkString GetValue_absent [OF assms(1)]
        push_values_list [OF t(1)] t(2) SetValue_def)
qed

lemma handleRPush_absent:
  assumes "data db k = None" and "vs \<noteq> []"
  shows "handleRPush now (map NewBulkString (k # vs)) db =
     Inr (NewInteger (of_nat (length vs)),
          db\<lparr>data := (data db)(k \<mapsto> NewListValue\<lparr>List := vs\<rparr>)\<rparr>)"
proof -
  have l: "\<not> length (map NewBulkString (k # vs)) < 2" using assms(2) by (cases vs) simp_all
  have t: "RedisValue.Type NewListValue = ''list''" "List NewListValue = []"
    by (simp_all add: NewListValue_def)
  show ?thesis
    unfolding handleRPush_def
    by (simp only: l if_False) (simp add: index_def Bulk_NewBulkString GetValue_absent [OF assms(1)]
        push_values_list [OF t(1)] t(2) SetValue_def)
qed

lemma handleLPush_list:
  assumes "data db k = Some e" and "RedisValue.Type e = ''list''" and "\<not> IsExpired now e"
    and "vs \<noteq> []"
  shows "handleLPush now (map NewBulkString (k # vs)) db =
     Inr (NewInteger (of_nat (length (List e) + length vs)),
          db\<lparr>data := (data db)(k \<mapsto> e\<lparr>List := rev vs @ List e\<rparr>)\<rparr>)"
proof -
  have l: "\<not> length (map NewBulkString (k # vs)) < 2" using assms(4) by (cases vs) simp_all
  show ?thesis
    unfolding handleLPush_def
    by (simp only: l if_False) (simp add: index_def Bulk_NewBulkString
        GetValue_live [OF assms(1,3)] assms(2) push_values_list [OF assms(2) assms(1)])
qed

lemma handleRPush_list:
  assumes "data db k = Some e" and "RedisValue.Type e = ''list''" and "\<not> IsExpired now e"
    and "vs \<noteq> []"
  shows "handleRPush now (map NewBulkString (k # vs)) db =
     Inr (NewInteger (of_nat (length (List e) + length vs)),
          db\<lparr>data := (data db)(k \<mapsto> e\<lparr>List := List e @ vs\<rparr>)\<rparr>)"
proof -
  have l: "\<not> length (map NewBulkString (k # vs)) < 2" using assms(4) by (cases vs) simp_all
  show ?thesis
    unfolding handleRPush_def
    by (simp only: l if_False) (simp add: index_def Bulk_NewBulkString
        GetValue_live [OF assms(1,3)] assms(2) push_values_list [OF assms(2) assms(1)])
qed

lemma NewListValue_live: "\<not> IsExpired now (NewListValue\<lparr>List := xs\<rparr>)"
  by (simp add: IsExpired_def NewListValue_def)

lemma handlePing_returns: "\<exists>r db'. handlePing args db = Inr (r, db')"
  by (simp add: handlePing_def index_def)

lemma handleSet_returns: "\<exists>r db'. handleSet args db = Inr (r, db')"
  by (simp add: handleSet_def index_def)

lemma handleGet_returns: "\<exists>r db'. handleGet now args db = Inr (r, db')"
  by (simp add: handleGet_def index_def split: prod.splits)

lemma handleDel_returns: "\<exists>r db'. handleDel args db = Inr (r, db')"
  by (simp add: handleDel_def index_def split: prod.splits)

lemma push_values_returns: "\<exists>r db'. push_values left key args val db = Inr (r, db')"
  using push_loop_returns [of left 1 args val] by (auto simp: push_values_def)

lemma handleLPush_returns: "\<exists>r db'. handleLPush now args db = Inr (r, db')"
  by (simp add: handleLPush_def index_def Let_def push_values_returns split: prod.splits option.splits)

lemma handleRPush_returns: "\<exists>r db'. handleRPush now args db = Inr (r, db')"
  by (simp add: handleRPush_def index_def Let_def push_values_returns split: prod.splits option.splits)

lemma handleLPop_returns: "\<exists>r db'. handleLPop now args db = Inr (r, db')"
  by (simp add: handleLPop_def index_def Let_def split: prod.splits option.splits)

lemma handleRPop_returns: "\<exists>r db'. handleRPop now args db = Inr (r, db')"
  by (simp add: handleRPop_def index_def Let_def split: prod.splits option.splits)

lemma handleLLen_returns: "\<exists>r db'. handleLLen now args db = Inr (r, db')"
  by (simp add: handleLLen_def index_def split: prod.splits option.splits)

lemma handleType_returns: "\<exists>r db'. handleType now args db = Inr (r, db')"
  by (simp add: handleType_def index_def split: prod.splits option.splits)

lemmas handlers_return =
  handlePing_returns handleSet_returns handleGet_returns handleDel_returns
  handleLPush_returns handleRPush_returns handleLPop_returns handleRPop_returns
  handleLLen_returns handleType_returns

lemma processCommand_returns: "\<exists>reply db'. processCommand now v db = Inr (reply, db')"
  by (simp add: processCommand_def index_def Let_def handlers_return)

lemma constructible_null_empty: "constructible v \<Longrightarrow> Null v \<Longrightarrow> Array v = []"
  by (cases v) (auto simp: Let_def NewSimpleString_def NewError_def NewInteger_def
      NewBulkString_def NewNullBulkString_def NewArray_def NewNullArray_def)

lemma store_ok_delete: "store_ok db \<Longrightarrow> store_ok (db\<lparr>data := (data db)(k := None)\<rparr>)"
  by (simp add: store_ok_def)

lemma store_ok_update:
  "store_ok db \<Longrightarrow> entry_ok e \<Longrightarrow> store_ok (db\<lparr>data := (data db)(k \<mapsto> e)\<rparr>)"
  by (simp add: store_ok_def)

lemma store_ok_GetValue: "store_ok db \<Longrightarrow> store_ok (snd (GetValue now k db))"
  by (simp add: GetValue_def store_ok_delete split: option.splits)

lemma store_ok_Get: "store_ok db \<Longrightarrow> store_ok (snd (Get now k db))"
  by (simp add: Get_def store_ok_delete split: option.splits)

lemma store_ok_Del: "store_ok db \<Longrightarrow> store_ok (snd (Del k db))"
  by (simp add: Del_def store_ok_delete split: option.splits)

lemma store_ok_Set: "store_ok db \<Longrightarrow> store_ok (Set_db k v db)"
  by (simp add: Set_db_def store_ok_update entry_ok_def NewStringValue_def)

lemma handlePing_ok: "store_ok db \<Longrightarrow> handlePing args db = Inr (r, db') \<Longrightarrow> store_ok db'"
  by (auto simp: handlePing_def index_def split: if_splits)

lemma handleSet_ok: "store_ok db \<Longrightarrow> handleSet args db = Inr (r, db') \<Longrightarrow> store_ok db'"
  by (auto simp: handleSet_def index_def store_ok_Set split: if_splits)

lemma handleGet_ok: "store_ok db \<Longrightarrow> handleGet now args db = Inr (r, db') \<Longrightarrow> store_ok db'"
  using store_ok_Get [of db now "Bulk (args ! 0)"]
  by (auto simp: handleGet_def index_def split: if_splits prod.splits)

lemma handleDel_ok: "store_ok db \<Longrightarrow> handleDel args db = Inr (r, db') \<Longrightarrow> store_ok db'"
  using store_ok_Del [of db "Bulk (args ! 0)"]
  by (auto simp: handleDel_def index_def split: if_splits prod.splits)

lemma handleLLen_ok: "store_ok db \<Longrightarrow> handleLLen now args db = Inr (r, db') \<Longrightarrow> store_ok db'"
  using store_ok_GetValue [of db now "Bulk (args ! 0)"]
  by (auto simp: handleLLen_def index_def split: if_splits prod.splits option.splits)

lemma handleType_ok: "store_ok db \<Longrightarrow> handleType now args db = Inr (r, db') \<Longrightarrow> store_ok db'"
  using store_ok_GetValue [of db now "Bulk (args ! 0)"]
  by (auto simp: handleType_def index_def split: if_splits prod.splits option.splits)

lemma push_values_ok:
  assumes "\<And>k e. k \<noteq> key \<Longrightarrow> data db k = Some e \<Longrightarrow> entry_ok e"
    and "RedisValue.Type val = ''list''" and "2 \<le> length args"
    and "push_values left key args val db = Inr (r, db')"
    and "data db key = Some val"
  shows "store_ok db'"
proof -
  let ?val' = "val\<lparr>List := (if left then rev (map Bulk (drop 1 args)) @ List val
                         else List val @ map Bulk (drop 1 args))\<rparr>"
  from assms(3) have "drop 1 args \<noteq> []" by simp
  then have "entry_ok ?val'" using assms(2) by (simp add: entry_ok_def)
  moreover from assms(4) have "db' = db\<lparr>data := (data db)(key \<mapsto> ?val')\<rparr>"
    by (auto simp: push_values_def push_loop_list [OF assms(2)] write_through_held [OF assms(5)])
  ultimately show ?thesis using assms(1) by (auto simp: store_ok_def)
qed

lemma push_handler_ok:
  assumes "store_ok db" and "2 \<le> length args"
    and "(case GetValue now key db of
            (None, db1) \<Rightarrow> push_values left key args NewListValue (SetValue key NewListValue db1)
          | (Some val, db1) \<Rightarrow>
              if RedisValue.Type val \<noteq> ''list'' then Inr (wrongtype, db1)
              else push_values left key args val db1) = Inr (r, db')"
  shows "store_ok db'"
proof (cases "GetValue now key db")
  case (Pair found db1)
  from store_ok_GetValue [OF assms(1), of now key] Pair have ok1: "store_ok db1" by simp
  show ?thesis
  proof (cases found)
    case None
    have t: "RedisValue.Type NewListValue = ''list''" by (simp add: NewListValue_def)
    have e: "\<And>k e. k \<noteq> key \<Longrightarrow> data (SetValue key NewListValue db1) k = Some e \<Longrightarrow> entry_ok e"
      using ok1 by (simp add: SetValue_def store_ok_def)
    from assms(3) Pair None
    have pv: "push_values left key args NewListValue (SetValue key NewListValue db1) = Inr (r, db')"
      by simp
    have held: "data (SetValue key NewListValue db1) key = Some NewListValue"
      by (simp add: SetValue_def)
    show ?thesis by (rule push_values_ok [OF e t assms(2) pv held])
  next
    case (Some val)
    show ?thesis
    proof (cases "RedisValue.Type val = ''list''")
      case True
      have e: "\<And>k e. k \<noteq> key \<Longrightarrow> data db1 k = Some e \<Longrightarrow> entry_ok e"
        using ok1 by (simp add: store_ok_def)
      from assms(3) Pair Some True
      have pv: "push_values left key args val db1 = Inr (r, db')" by simp
      from Pair Some have held: "data db1 key = Some val" by (simp add: GetValue_Some)
      show ?thesis by (rule push_values_ok [OF e True assms(2) pv held])
    next
      case False
      with assms(3) Pair Some ok1 show ?thesis by simp
    qed
  qed
qed

lemma handleLPush_ok:
  assumes "store_ok db" and "handleLPush now args db = Inr (r, db')"
  shows "store_ok db'"
proof (cases "length args < 2")
  case True
  with assms show ?thesis by (simp add: handleLPush_def)
next
  case False
  then have l: "2 \<le> length args" and ne: "args \<noteq> []" by auto
  from assms(2) False ne show ?thesis
    by (intro push_handler_ok [OF assms(1) l, where now = now and key = "Bulk (args ! 0)" and left = True and r = r])
       (simp add: handleLPush_def index_def Let_def)
qed

lemma handleRPush_ok:
  assumes "store_ok db" and "handleRPush now args db = Inr (r, db')"
  shows "store_ok db'"
proof (cases "length args < 2")
  case True
  with assms show ?thesis by (simp add: handleRPush_def)
next
  case False
  then have l: "2 \<le> length args" and ne: "args \<noteq> []" by auto
  from assms(2) False ne show ?thesis
    by (intro push_handler_ok [OF assms(1) l, where now = now and key = "Bulk (args ! 0)" and left = False and r = r])
       (simp add: handleRPush_def index_def Let_def)
qed

lemma pop_handler_ok:
  assumes "store_ok db"
    and "(case GetValue now key db of
            (None, db1) \<Rightarrow> Inr (NewNullBulkString, db1)
          | (Some val, db1) \<Rightarrow>
              if RedisValue.Type val \<noteq> ''list'' then Inr (wrongtype, db1)
              else (case ListPop val left of
                 (val', v, popped) \<Rightarrow>
                   let db2 = write_through key val val' db1 in
                   if \<not> popped then Inr (NewNullBulkString, db2)
                   else if ListLength val' = 0 then Inr (NewBulkString v, snd (Del key db2))
                   else Inr (NewBulkString v, db2))) = Inr (r, db')"
  shows "store_ok db'"
proof (cases "GetValue now key db")
  case (Pair found db1)
  from store_ok_GetValue [OF assms(1), of now key] Pair have ok1: "store_ok db1" by simp
  show ?thesis
  proof (cases found)
    case None
    with assms(2) Pair ok1 show ?thesis by simp
  next
    case (Some val)
    from Pair Some have held: "data db1 key = Some val" by (simp add: GetValue_Some)
    with ok1 have ev: "entry_ok val" by (simp add: store_ok_def)
    show ?thesis
    proof (cases "RedisValue.Type val = ''list''")
      case False
      with assms(2) Pair Some ok1 show ?thesis by simp
    next
      case True
      with ev have ne: "List val \<noteq> []" by (simp add: entry_ok_def)
      let ?val' = "val\<lparr>List := (if left then drop 1 (List val)
                                  else take (length (List val) - 1) (List val))\<rparr>"
      have p: "ListPop val left =
          (?val', (if left then List val ! 0 else List val ! (length (List val) - 1)), True)"
        using True ne by (simp add: ListPop_def)
      let ?db2 = "db1\<lparr>data := (data db1)(key \<mapsto> ?val')\<rparr>"
      show ?thesis
      proof (cases "ListLength ?val' = 0")
        case z: True
        with assms(2) Pair Some True p have "db' = snd (Del key ?db2)"
          by (simp add: Let_def write_through_held [OF held])
        then have "db' = db1\<lparr>data := (data db1)(key := None)\<rparr>" by (simp add: Del_def)
        with ok1 show ?thesis by (simp add: store_ok_delete)
      next
        case nz: False
        with assms(2) Pair Some True p have d: "db' = ?db2"
          by (simp add: Let_def write_through_held [OF held])
        from nz True have "entry_ok ?val'" by (simp add: ListLength_def entry_ok_def)
        with ok1 d show ?thesis by (simp add: store_ok_update)
      qed
    qed
  qed
qed

lemma handleLPop_ok:
  assumes "store_ok db" and "handleLPop now args db = Inr (r, db')"
  shows "store_ok db'"
proof (cases "length args \<noteq> 1")
  case True
  with assms show ?thesis by (simp add: handleLPop_def)
next
  case False
  then have ne: "args \<noteq> []" by auto
  from assms(2) False ne show ?thesis
    by (intro pop_handler_ok [OF assms(1), where now = now and key = "Bulk (args ! 0)" and left = True and r = r])
       (simp add: handleLPop_def index_def Let_def)
qed

lemma handleRPop_ok:
  assumes "store_ok db" and "handleRPop now args db = Inr (r, db')"
  shows "store_ok db'"
proof (cases "length args \<noteq> 1")
  case True
  with assms show ?thesis by (simp add: handleRPop_def)
next
  case False
  then have ne: "args \<noteq> []" by auto
  from assms(2) False ne show ?thesis
    by (intro pop_handler_ok [OF assms(1), where now = now and key = "Bulk (args ! 0)" and left = False and r = r])
       (simp add: handleRPop_def index_def Let_def)
qed

lemmas handlers_ok =
  handlePing_ok handleSet_ok handleGet_ok handleDel_ok handleLPush_ok handleRPush_ok
  handleLPop_ok handleRPop_ok handleLLen_ok handleType_ok

lemma processCommand_ok:
  assumes "store_ok db" and "processCommand now v db = Inr (r, db')"
  shows "store_ok db'"
  using assms
  by (auto simp: processCommand_def index_def Let_def split: if_splits dest: handlers_ok)

lemma dispatch_all_ok:
  "store_ok db \<Longrightarrow> \<exists>db'. dispatch_all db reqs = Inr db' \<and> store_ok db'"
proof (induction reqs arbitrary: db)
  case Nil
  then show ?case by simp
next
  case (Cons req reqs)
  obtain now v where req: "req = (now, v)" by (cases req)
  obtain reply db1 where p: "processCommand now v db = Inr (reply, db1)"
    using processCommand_returns by blast
  from processCommand_ok [OF Cons.prems p] have "store_ok db1" .
  from Cons.IH [OF this] show ?case by (simp add: req p)
qed

lemma push_loop_unroll:
  "push_loop left i (a # as) val =
     (if i < length (a # as)
      then push_loop left (i + 1) (a # as) (fst (ListPush val (Bulk ((a # as) ! i)) left))
      else Inr val)"
  by (subst push_loop.simps) (simp add: index_def)

lemma handleClient_step:
  assumes "Read input = Ok v rest" and "processCommand (clock n) v db = Inr (reply, db')"
    and "Write reply = (bytes, None)"
  shows "handleClient clock n input db out = handleClient clock (n + 1) rest db' (out @ bytes)"
  by (subst handleClient.simps) (simp add: assms)

lemma handleClient_read_error:
  assumes "Read input = Failed err"
  shows "handleClient clock n input db out = Closed out db"
  by (subst handleClient.simps) (simp add: assms)

lemma Write_OK: "Write (NewSimpleString ''OK'') = (''+OK'' @ CRLF, None)"
  by (simp add: NewSimpleString_def)

section \<open>Claims about the codec\<close>

text \<open>
  Claim C1, as amended. The claim as written fails for a SimpleString or Error whose
  text holds a line feed: the reader ends the line at the first line feed. What holds:
  for every Protocol Value built by the constructor helpers (the two null forms
  included, and Arrays recursively) in which no SimpleString or Error text contains a
  line feed byte, and whose BulkStrings and Arrays are shorter than \<open>2^63\<close> (as every Go
  string and slice is), \<open>Write\<close> succeeds and \<open>Read\<close> applied to the bytes it wrote,
  followed by any further bytes \<open>rest\<close>, returns the original value and leaves \<open>rest\<close>
  unread.
\<close>

theorem Read_Write_roundtrip:
  assumes "constructible v" and "line_free v" and "len_fits_int v"
  shows "snd (Write v) = None \<and> Read (fst (Write v) @ rest) = Ok v rest"
  using Read_Write_aux [OF assms] by blast

theorem Read_Write_roundtrip_witness:
  "constructible (NewArray [NewSimpleString ''OK'', NewError ''ERR x'', NewInteger (- 7),
      NewBulkString [CHR ''a'', CR, LF, CHR ''b''], NewNullBulkString, NewArray [], NewNullArray])
   \<and> line_free (NewArray [NewSimpleString ''OK'', NewError ''ERR x'', NewInteger (- 7),
      NewBulkString [CHR ''a'', CR, LF, CHR ''b''], NewNullBulkString, NewArray [], NewNullArray])
   \<and> len_fits_int (NewArray [NewSimpleString ''OK'', NewError ''ERR x'', NewInteger (- 7),
      NewBulkString [CHR ''a'', CR, LF, CHR ''b''], NewNullBulkString, NewArray [], NewNullArray])
   \<and> snd (Write (NewArray [NewSimpleString ''OK'', NewError ''ERR x'', NewInteger (- 7),
      NewBulkString [CHR ''a'', CR, LF, CHR ''b''], NewNullBulkString, NewArray [], NewNullArray])) = None
   \<and> Read (fst (Write (NewArray [NewSimpleString ''OK'', NewError ''ERR x'', NewInteger (- 7),
      NewBulkString [CHR ''a'', CR, LF, CHR ''b''], NewNullBulkString, NewArray [], NewNullArray]))
        @ ''+next'')
     = Ok (NewArray [NewSimpleString ''OK'', NewError ''ERR x'', NewInteger (- 7),
      NewBulkString [CHR ''a'', CR, LF, CHR ''b''], NewNullBulkString, NewArray [], NewNullArray])
        ''+next''"
proof -
  let ?v = "NewArray [NewSimpleString ''OK'', NewError ''ERR x'', NewInteger (- 7),
      NewBulkString [CHR ''a'', CR, LF, CHR ''b''], NewNullBulkString, NewArray [], NewNullArray]"
  have c: "constructible ?v"
    by (simp add: NewArray_def NewSimpleString_def NewError_def NewInteger_def
        NewBulkString_def NewNullBulkString_def NewNullArray_def)
  have l: "line_free ?v"
    by (simp add: NewArray_def NewSimpleString_def NewError_def NewInteger_def
        NewBulkString_def NewNullBulkString_def NewNullArray_def)
  have f: "len_fits_int ?v"
    by (simp add: NewArray_def NewSimpleString_def NewError_def NewInteger_def
        NewBulkString_def NewNullBulkString_def NewNullArray_def)
  from Read_Write_roundtrip [OF c l f, of "''+next''"] c l f show ?thesis by blast
qed

text \<open>
  The counterexample to C1 as written: the SimpleString \<open>a\<close>, line feed, \<open>b\<close> is
  built by \<open>NewSimpleString\<close> and is not a null form; decoding its encoding returns the
  SimpleString \<open>a\<close>, line feed, and leaves \<open>b\<close>, carriage return, line feed unread.
\<close>

theorem Read_Write_line_feed_counterexample:
  "constructible (NewSimpleString [CHR ''a'', LF, CHR ''b''])
   \<and> Read (fst (Write (NewSimpleString [CHR ''a'', LF, CHR ''b''])))
       = Ok (NewSimpleString [CHR ''a'', LF]) [CHR ''b'', CR, LF]
   \<and> Read (fst (Write (NewSimpleString [CHR ''a'', LF, CHR ''b''])))
       \<noteq> Ok (NewSimpleString [CHR ''a'', LF, CHR ''b'']) []"
  by code_simp

text \<open>
  Claim C2, evaluated where the code departs from it: on the bytes \<open>$-2\<close>, carriage
  return, line feed, and on \<open>*-5\<close>, carriage return, line feed, \<open>Read\<close> does not return
  a decode error: \<^verbatim>\<open>make\<close> is called with the negative length and panics.
\<close>

theorem Read_negative_length_panics:
  "Read (''$-2'' @ CRLF) = Panicked MakesliceLenOutOfRange
   \<and> Read (''*-5'' @ CRLF) = Panicked MakesliceLenOutOfRange"
  by code_simp

text \<open>
  Claim C9. After the declared number of payload bytes of a non-null BulkString frame
  the reader drops the next two bytes, whatever they are: for every payload (shorter
  than \<open>2^63\<close>) and every two bytes \<open>x\<close>, \<open>y\<close>, the frame with \<open>x\<close>, \<open>y\<close> in the place of
  carriage return, line feed decodes to the BulkString of the payload, and the bytes
  after \<open>y\<close> are left unread. In particular every 5-byte payload after \<open>$5\<close>, carriage
  return, line feed does.
\<close>

theorem readBulkString_trailer_unchecked:
  assumes "length payload < 2 ^ 63"
  shows "Read (CHR ''$'' # FormatInt (int (length payload)) @ CRLF @ payload @ x # y # rest)
           = Ok (NewBulkString payload) rest
         \<and> (length payload = 5 \<longrightarrow>
              Read (''$5'' @ CRLF @ payload @ x # y # rest) = Ok (NewBulkString payload) rest)"
proof -
  have a: "Atoi (FormatInt (int (length payload))) = Some (int (length payload))"
    using assms by (intro Atoi_FormatInt) simp_all
  have rl: "\<And>r. readLine (FormatInt (int (length payload)) @ CR # LF # r)
               = Inr (FormatInt (int (length payload)), r)"
    by (rule readLine_line) (rule LF_notin_FormatInt)
  have g: "Read (CHR ''$'' # FormatInt (int (length payload)) @ CRLF @ payload @ x # y # rest)
           = Ok (NewBulkString payload) rest"
    by (simp add: NewBulkString_def readBulkString_def a rl FormatInt_nat_not_minus_one
        ReadFull_def ReadByte_discard_def)
  have five: "FormatInt 5 = ''5''"
    by code_simp
  show ?thesis using g five by auto
qed

theorem readBulkString_trailer_unchecked_witness:
  "length ''hello'' < 2 ^ 63
   \<and> Read (''$5'' @ CRLF @ ''hello'' @ ''XY'') = Ok (NewBulkString ''hello'') []"
proof -
  have h: "length ''hello'' < 2 ^ 63" by simp
  from readBulkString_trailer_unchecked [OF h, of "CHR ''X''" "CHR ''Y''" "[]"]
  show ?thesis by simp
qed

section \<open>Claims about the command engine\<close>

text \<open>
  Claim C4. For every store, key \<open>k\<close> and strings \<open>v\<close>, \<open>x\<close>, at any instants: SET
  \<open>k\<close> \<open>v\<close> replies OK; LPUSH \<open>k\<close> \<open>x\<close> dispatched next replies an Error whose text
  contains WRONGTYPE (it starts with it), and leaves the store as SET left it, where
  \<open>k\<close> holds the String entry \<open>v\<close>.
\<close>

theorem SET_then_LPUSH_wrongtype:
  "processCommand now1 (request [''SET'', k, v]) db = Inr (NewSimpleString ''OK'', Set_db k v db)
   \<and> processCommand now2 (request [''LPUSH'', k, x]) (Set_db k v db)
       = Inr (NewError ''WRONGTYPE Operation against a key holding the wrong kind of value'',
              Set_db k v db)
   \<and> Value.Type (NewError ''WRONGTYPE Operation against a key holding the wrong kind of value'')
       = ERROR
   \<and> Str (NewError ''WRONGTYPE Operation against a key holding the wrong kind of value'')
       = ''WRONGTYPE'' @ '' Operation against a key holding the wrong kind of value''
   \<and> data (Set_db k v db) k = Some (NewStringValue v)
   \<and> RedisValue.Type (NewStringValue v) = ''string'' \<and> String (NewStringValue v) = v"
  by (simp add: processCommand_request handleSet_def handleLPush_def index_def
      Bulk_NewBulkString Set_db_def GetValue_def IsExpired_def NewStringValue_def NewError_def)

theorem SET_then_LPUSH_wrongtype_witness:
  "processCommand 1 (request [''SET'', ''k'', ''v'']) NewDatabase
     = Inr (NewSimpleString ''OK'', Set_db ''k'' ''v'' NewDatabase)
   \<and> processCommand 2 (request [''LPUSH'', ''k'', ''x'']) (Set_db ''k'' ''v'' NewDatabase)
       = Inr (NewError ''WRONGTYPE Operation against a key holding the wrong kind of value'',
              Set_db ''k'' ''v'' NewDatabase)
   \<and> data (Set_db ''k'' ''v'' NewDatabase) ''k'' = Some (NewStringValue ''v'')"
  using SET_then_LPUSH_wrongtype [of 1 "''k''" "''v''" NewDatabase 2 "''x''"] by blast

text \<open>
  Claim C5. When the entry stored under \<open>k\<close> carries an expiration instant earlier than
  the current instant, GET \<open>k\<close> replies the null BulkString, TYPE \<open>k\<close> replies the
  SimpleString none and LLEN \<open>k\<close> replies Integer 0, and each of them leaves the store
  with \<open>k\<close> removed from the map.
\<close>

theorem expired_key_absent:
  assumes "data db k = Some e" and "ExpiresAt e = Some t" and "t < now"
  shows "processCommand now (request [''GET'', k]) db
           = Inr (NewNullBulkString, db\<lparr>data := (data db)(k := None)\<rparr>)
       \<and> processCommand now (request [''TYPE'', k]) db
           = Inr (NewSimpleString ''none'', db\<lparr>data := (data db)(k := None)\<rparr>)
       \<and> processCommand now (request [''LLEN'', k]) db
           = Inr (NewInteger 0, db\<lparr>data := (data db)(k := None)\<rparr>)
       \<and> data (db\<lparr>data := (data db)(k := None)\<rparr>) k = None"
  using assms
  by (simp add: processCommand_request handleGet_def handleType_def handleLLen_def index_def
      Bulk_NewBulkString Get_def GetValue_def IsExpired_def)

theorem expired_key_absent_witness:
  "data \<lparr>data = [''k'' \<mapsto> (NewStringValue ''v'')\<lparr>ExpiresAt := Some 5\<rparr>]\<rparr> ''k''
     = Some ((NewStringValue ''v'')\<lparr>ExpiresAt := Some 5\<rparr>)
   \<and> ExpiresAt ((NewStringValue ''v'')\<lparr>ExpiresAt := Some 5\<rparr>) = Some 5
   \<and> (5 :: int) < 10
   \<and> processCommand 10 (request [''GET'', ''k''])
         \<lparr>data = [''k'' \<mapsto> (NewStringValue ''v'')\<lparr>ExpiresAt := Some 5\<rparr>]\<rparr>
       = Inr (NewNullBulkString, \<lparr>data = Map.empty\<rparr>)
   \<and> processCommand 10 (request [''TYPE'', ''k''])
         \<lparr>data = [''k'' \<mapsto> (NewStringValue ''v'')\<lparr>ExpiresAt := Some 5\<rparr>]\<rparr>
       = Inr (NewSimpleString ''none'', \<lparr>data = Map.empty\<rparr>)
   \<and> processCommand 10 (request [''LLEN'', ''k''])
         \<lparr>data = [''k'' \<mapsto> (NewStringValue ''v'')\<lparr>ExpiresAt := Some 5\<rparr>]\<rparr>
       = Inr (NewInteger 0, \<lparr>data = Map.empty\<rparr>)"
proof -
  let ?e = "(NewStringValue ''v'')\<lparr>ExpiresAt := Some 5\<rparr>"
  let ?db = "\<lparr>data = [''k'' \<mapsto> ?e]\<rparr>"
  have h1: "data ?db ''k'' = Some ?e" by simp
  have h2: "ExpiresAt ?e = Some 5" by simp
  have h3: "(5 :: int) < 10" by simp
  from expired_key_absent [OF h1 h2 h3] h1 h2 h3 show ?thesis by simp
qed

text \<open>
  Claim C6. A push of the values \<open>vs\<close> (at least one) on a key that is absent, or that
  holds a list that has not expired, pushes the values in argument order (LPUSH each at
  the head, so they read \<open>rev vs\<close> before the old elements; RPUSH each at the tail, so
  they read \<open>vs\<close> after them), on the empty list it creates when the key is absent, and
  replies the Integer of the resulting length. From a store where \<open>k\<close> is absent, LPUSH
  \<open>a\<close> then LPUSH \<open>b\<close> leaves the list \<open>b\<close>, \<open>a\<close> with the replies 1 and 2, and RPUSH
  \<open>a\<close> then RPUSH \<open>b\<close> leaves \<open>a\<close>, \<open>b\<close>.
\<close>

theorem push_order:
  "(vs \<noteq> [] \<and> (data db k = None \<and> e = NewListValue
                 \<or> data db k = Some e \<and> RedisValue.Type e = ''list'' \<and> \<not> IsExpired now e) \<longrightarrow>
      processCommand now (request (''LPUSH'' # k # vs)) db
        = Inr (NewInteger (of_nat (length (List e) + length vs)),
               db\<lparr>data := (data db)(k \<mapsto> e\<lparr>List := rev vs @ List e\<rparr>)\<rparr>)
      \<and> processCommand now (request (''RPUSH'' # k # vs)) db
        = Inr (NewInteger (of_nat (length (List e) + length vs)),
               db\<lparr>data := (data db)(k \<mapsto> e\<lparr>List := List e @ vs\<rparr>)\<rparr>))
   \<and> (data db k = None \<longrightarrow>
      processCommand t1 (request [''LPUSH'', k, a]) db
        = Inr (NewInteger 1, db\<lparr>data := (data db)(k \<mapsto> NewListValue\<lparr>List := [a]\<rparr>)\<rparr>)
      \<and> processCommand t2 (request [''LPUSH'', k, b])
            (db\<lparr>data := (data db)(k \<mapsto> NewListValue\<lparr>List := [a]\<rparr>)\<rparr>)
        = Inr (NewInteger 2, db\<lparr>data := (data db)(k \<mapsto> NewListValue\<lparr>List := [b, a]\<rparr>)\<rparr>)
      \<and> processCommand t1 (request [''RPUSH'', k, a]) db
        = Inr (NewInteger 1, db\<lparr>data := (data db)(k \<mapsto> NewListValue\<lparr>List := [a]\<rparr>)\<rparr>)
      \<and> processCommand t2 (request [''RPUSH'', k, b])
            (db\<lparr>data := (data db)(k \<mapsto> NewListValue\<lparr>List := [a]\<rparr>)\<rparr>)
        = Inr (NewInteger 2, db\<lparr>data := (data db)(k \<mapsto> NewListValue\<lparr>List := [a, b]\<rparr>)\<rparr>))"
proof (intro conjI impI)
  assume h: "vs \<noteq> [] \<and> (data db k = None \<and> e = NewListValue
                 \<or> data db k = Some e \<and> RedisValue.Type e = ''list'' \<and> \<not> IsExpired now e)"
  then have vs: "vs \<noteq> []" by simp
  from h consider (absent) "data db k = None" "e = NewListValue"
    | (list) "data db k = Some e" "RedisValue.Type e = ''list''" "\<not> IsExpired now e"
    by auto
  then have "processCommand now (request (''LPUSH'' # k # vs)) db
        = Inr (NewInteger (of_nat (length (List e) + length vs)),
               db\<lparr>data := (data db)(k \<mapsto> e\<lparr>List := rev vs @ List e\<rparr>)\<rparr>)
      \<and> processCommand now (request (''RPUSH'' # k # vs)) db
        = Inr (NewInteger (of_nat (length (List e) + length vs)),
               db\<lparr>data := (data db)(k \<mapsto> e\<lparr>List := List e @ vs\<rparr>)\<rparr>)"
  proof cases
    case absent
    have "List NewListValue = []" by (simp add: NewListValue_def)
    with absent(2) handleLPush_absent [OF absent(1) vs, of now]
      handleRPush_absent [OF absent(1) vs, of now]
    show ?thesis by (simp add: processCommand_request)
  next
    case list
    from handleLPush_list [OF list vs] handleRPush_list [OF list vs]
    show ?thesis by (simp add: processCommand_request)
  qed
  then show "processCommand now (request (''LPUSH'' # k # vs)) db
        = Inr (NewInteger (of_nat (length (List e) + length vs)),
               db\<lparr>data := (data db)(k \<mapsto> e\<lparr>List := rev vs @ List e\<rparr>)\<rparr>)"
    and "processCommand now (request (''RPUSH'' # k # vs)) db
        = Inr (NewInteger (of_nat (length (List e) + length vs)),
               db\<lparr>data := (data db)(k \<mapsto> e\<lparr>List := List e @ vs\<rparr>)\<rparr>)"
    by simp_all
next
  assume absent: "data db k = None"
  let ?db1 = "db\<lparr>data := (data db)(k \<mapsto> NewListValue\<lparr>List := [a]\<rparr>)\<rparr>"
  have e: "data ?db1 k = Some (NewListValue\<lparr>List := [a]\<rparr>)" by simp
  have ty: "RedisValue.Type (NewListValue\<lparr>List := [a]\<rparr>) = ''list''"
    by (simp add: NewListValue_def)
  show "processCommand t1 (request [''LPUSH'', k, a]) db = Inr (NewInteger 1, ?db1)"
    using handleLPush_absent [OF absent, of "[a]" t1] by (simp add: processCommand_request)
  show "processCommand t2 (request [''LPUSH'', k, b]) ?db1
          = Inr (NewInteger 2, db\<lparr>data := (data db)(k \<mapsto> NewListValue\<lparr>List := [b, a]\<rparr>)\<rparr>)"
    using handleLPush_list [OF e ty NewListValue_live, of "[b]" t2]
    by (simp add: processCommand_request)
  show "processCommand t1 (request [''RPUSH'', k, a]) db = Inr (NewInteger 1, ?db1)"
    using handleRPush_absent [OF absent, of "[a]" t1] by (simp add: processCommand_request)
  show "processCommand t2 (request [''RPUSH'', k, b]) ?db1
          = Inr (NewInteger 2, db\<lparr>data := (data db)(k \<mapsto> NewListValue\<lparr>List := [a, b]\<rparr>)\<rparr>)"
    using handleRPush_list [OF e ty NewListValue_live, of "[b]" t2]
    by (simp add: processCommand_request)
qed

theorem push_order_witness:
  "[''x'', ''y''] \<noteq> []
   \<and> data \<lparr>data = [''k'' \<mapsto> NewListValue\<lparr>List := [''p'']\<rparr>]\<rparr> ''k''
       = Some (NewListValue\<lparr>List := [''p'']\<rparr>)
   \<and> RedisValue.Type (NewListValue\<lparr>List := [''p'']\<rparr>) = ''list''
   \<and> \<not> IsExpired 7 (NewListValue\<lparr>List := [''p'']\<rparr>)
   \<and> processCommand 7 (request [''LPUSH'', ''k'', ''x'', ''y''])
         \<lparr>data = [''k'' \<mapsto> NewListValue\<lparr>List := [''p'']\<rparr>]\<rparr>
       = Inr (NewInteger 3, \<lparr>data = [''k'' \<mapsto> NewListValue\<lparr>List := [''y'', ''x'', ''p'']\<rparr>]\<rparr>)
   \<and> processCommand 7 (request [''RPUSH'', ''k'', ''x'', ''y''])
         \<lparr>data = [''k'' \<mapsto> NewListValue\<lparr>List := [''p'']\<rparr>]\<rparr>
       = Inr (NewInteger 3, \<lparr>data = [''k'' \<mapsto> NewListValue\<lparr>List := [''p'', ''x'', ''y'']\<rparr>]\<rparr>)
   \<and> data NewDatabase ''k'' = None
   \<and> processCommand 1 (request [''LPUSH'', ''k'', ''a'']) NewDatabase
       = Inr (NewInteger 1, \<lparr>data = [''k'' \<mapsto> NewListValue\<lparr>List := [''a'']\<rparr>]\<rparr>)
   \<and> processCommand 2 (request [''LPUSH'', ''k'', ''b''])
         \<lparr>data = [''k'' \<mapsto> NewListValue\<lparr>List := [''a'']\<rparr>]\<rparr>
       = Inr (NewInteger 2, \<lparr>data = [''k'' \<mapsto> NewListValue\<lparr>List := [''b'', ''a'']\<rparr>]\<rparr>)
   \<and> processCommand 1 (request [''RPUSH'', ''k'', ''a'']) NewDatabase
       = Inr (NewInteger 1, \<lparr>data = [''k'' \<mapsto> NewListValue\<lparr>List := [''a'']\<rparr>]\<rparr>)
   \<and> processCommand 2 (request [''RPUSH'', ''k'', ''b''])
         \<lparr>data = [''k'' \<mapsto> NewListValue\<lparr>List := [''a'']\<rparr>]\<rparr>
       = Inr (NewInteger 2, \<lparr>data = [''k'' \<mapsto> NewListValue\<lparr>List := [''a'', ''b'']\<rparr>]\<rparr>)"
proof -
  let ?e = "NewListValue\<lparr>List := [''p'']\<rparr>"
  let ?db = "\<lparr>data = [''k'' \<mapsto> ?e]\<rparr>"
  have h1: "[''x'', ''y''] \<noteq> []" by simp
  have h2: "data ?db ''k'' = Some ?e" by simp
  have h3: "RedisValue.Type ?e = ''list''" by (simp add: NewListValue_def)
  have h4: "\<not> IsExpired 7 ?e" by (rule NewListValue_live)
  have h5: "data NewDatabase ''k'' = None" by (simp add: NewDatabase_def)
  from push_order [of "[''x'', ''y'']" ?db "''k''" ?e 7] h1 h2 h3 h4
  have a: "processCommand 7 (request [''LPUSH'', ''k'', ''x'', ''y'']) ?db
       = Inr (NewInteger 3, \<lparr>data = [''k'' \<mapsto> NewListValue\<lparr>List := [''y'', ''x'', ''p'']\<rparr>]\<rparr>)
   \<and> processCommand 7 (request [''RPUSH'', ''k'', ''x'', ''y'']) ?db
       = Inr (NewInteger 3, \<lparr>data = [''k'' \<mapsto> NewListValue\<lparr>List := [''p'', ''x'', ''y'']\<rparr>]\<rparr>)"
    by simp
  from push_order [of "[]" NewDatabase "''k''" NewListValue 0 1 "''a''" 2 "''b''"] h5
  have b: "processCommand 1 (request [''LPUSH'', ''k'', ''a'']) NewDatabase
       = Inr (NewInteger 1, \<lparr>data = [''k'' \<mapsto> NewListValue\<lparr>List := [''a'']\<rparr>]\<rparr>)
   \<and> processCommand 2 (request [''LPUSH'', ''k'', ''b''])
         \<lparr>data = [''k'' \<mapsto> NewListValue\<lparr>List := [''a'']\<rparr>]\<rparr>
       = Inr (NewInteger 2, \<lparr>data = [''k'' \<mapsto> NewListValue\<lparr>List := [''b'', ''a'']\<rparr>]\<rparr>)
   \<and> processCommand 1 (request [''RPUSH'', ''k'', ''a'']) NewDatabase
       = Inr (NewInteger 1, \<lparr>data = [''k'' \<mapsto> NewListValue\<lparr>List := [''a'']\<rparr>]\<rparr>)
   \<and> processCommand 2 (request [''RPUSH'', ''k'', ''b''])
         \<lparr>data = [''k'' \<mapsto> NewListValue\<lparr>List := [''a'']\<rparr>]\<rparr>
       = Inr (NewInteger 2, \<lparr>data = [''k'' \<mapsto> NewListValue\<lparr>List := [''a'', ''b'']\<rparr>]\<rparr>)"
    by (simp add: NewDatabase_def)
  from a b h1 h2 h3 h4 h5 show ?thesis by blast
qed

text \<open>
  Claim C7. From a store where \<open>k\<close> is absent: RPUSH \<open>k\<close> \<open>a\<close> replies 1; LPOP \<open>k\<close>
  (or RPOP \<open>k\<close>) then replies the BulkString \<open>a\<close> and leaves the store it started
  from, in which \<open>k\<close> has no entry; LLEN \<open>k\<close> then replies Integer 0 and TYPE \<open>k\<close> the
  SimpleString none.
\<close>

theorem pop_to_empty_deletes_key:
  assumes "data db k = None"
  shows "processCommand t1 (request [''RPUSH'', k, a]) db
           = Inr (NewInteger 1, db\<lparr>data := (data db)(k \<mapsto> NewListValue\<lparr>List := [a]\<rparr>)\<rparr>)
       \<and> processCommand t2 (request [''LPOP'', k])
             (db\<lparr>data := (data db)(k \<mapsto> NewListValue\<lparr>List := [a]\<rparr>)\<rparr>)
           = Inr (NewBulkString a, db)
       \<and> processCommand t2 (request [''RPOP'', k])
             (db\<lparr>data := (data db)(k \<mapsto> NewListValue\<lparr>List := [a]\<rparr>)\<rparr>)
           = Inr (NewBulkString a, db)
       \<and> processCommand t3 (request [''LLEN'', k]) db = Inr (NewInteger 0, db)
       \<and> processCommand t4 (request [''TYPE'', k]) db = Inr (NewSimpleString ''none'', db)
       \<and> data db k = None"
proof -
  let ?db1 = "db\<lparr>data := (data db)(k \<mapsto> NewListValue\<lparr>List := [a]\<rparr>)\<rparr>"
  have same: "(data db)(k := None) = data db" using assms by (simp add: fun_upd_idem)
  have r1: "processCommand t1 (request [''RPUSH'', k, a]) db = Inr (NewInteger 1, ?db1)"
    using handleRPush_absent [OF assms, of "[a]" t1] by (simp add: processCommand_request)
  have lp: "processCommand t2 (request [''LPOP'', k]) ?db1 = Inr (NewBulkString a, db)"
    by (simp add: processCommand_request handleLPop_def index_def Bulk_NewBulkString
        GetValue_def IsExpired_def NewListValue_def ListPop_def ListLength_def Del_def
        write_through_def same)
  have rp: "processCommand t2 (request [''RPOP'', k]) ?db1 = Inr (NewBulkString a, db)"
    by (simp add: processCommand_request handleRPop_def index_def Bulk_NewBulkString
        GetValue_def IsExpired_def NewListValue_def ListPop_def ListLength_def Del_def
        write_through_def same)
  have ll: "processCommand t3 (request [''LLEN'', k]) db = Inr (NewInteger 0, db)"
    using assms
    by (simp add: processCommand_request handleLLen_def index_def Bulk_NewBulkString GetValue_def)
  have ty: "processCommand t4 (request [''TYPE'', k]) db = Inr (NewSimpleString ''none'', db)"
    using assms
    by (simp add: processCommand_request handleType_def index_def Bulk_NewBulkString GetValue_def)
  from r1 lp rp ll ty assms show ?thesis by blast
qed

theorem pop_to_empty_deletes_key_witness:
  "data NewDatabase ''k'' = None
   \<and> processCommand 1 (request [''RPUSH'', ''k'', ''a'']) NewDatabase
       = Inr (NewInteger 1, NewDatabase\<lparr>data := [''k'' \<mapsto> NewListValue\<lparr>List := [''a'']\<rparr>]\<rparr>)
   \<and> processCommand 2 (request [''LPOP'', ''k''])
         (NewDatabase\<lparr>data := [''k'' \<mapsto> NewListValue\<lparr>List := [''a'']\<rparr>]\<rparr>)
       = Inr (NewBulkString ''a'', NewDatabase)
   \<and> processCommand 3 (request [''LLEN'', ''k'']) NewDatabase = Inr (NewInteger 0, NewDatabase)
   \<and> processCommand 4 (request [''TYPE'', ''k'']) NewDatabase
       = Inr (NewSimpleString ''none'', NewDatabase)"
proof -
  have h: "data NewDatabase ''k'' = None" by (simp add: NewDatabase_def)
  from pop_to_empty_deletes_key [OF h, of 1 "''a''" 2 3 4] h
  show ?thesis by (simp add: NewDatabase_def)
qed

text \<open>
  Claim C8. \<open>processCommand\<close> returns a reply for every value, store and instant: no
  index it takes is out of range. A request that is not a non-null Array with at least
  one element (a null Array, an empty Array, a value of another type), the value being
  one the constructor helpers build (as every value the reader returns is), is answered
  with the Error \<open>ERR invalid command format\<close> and the store is left as it was.
\<close>

theorem processCommand_total:
  "(\<exists>reply db'. processCommand now v db = Inr (reply, db'))
   \<and> (constructible v \<and> \<not> (Value.Type v = ARRAY \<and> \<not> Null v \<and> Array v \<noteq> []) \<longrightarrow>
        processCommand now v db = Inr (NewError ''ERR invalid command format'', db))"
proof (intro conjI impI)
  show "\<exists>reply db'. processCommand now v db = Inr (reply, db')"
    by (rule processCommand_returns)
next
  assume a: "constructible v \<and> \<not> (Value.Type v = ARRAY \<and> \<not> Null v \<and> Array v \<noteq> [])"
  then have "Value.Type v \<noteq> ARRAY \<or> Array v = []"
    using constructible_null_empty [of v] by blast
  then show "processCommand now v db = Inr (NewError ''ERR invalid command format'', db)"
    by (auto simp: processCommand_def)
qed

theorem processCommand_total_witness:
  "constructible NewNullArray
   \<and> \<not> (Value.Type NewNullArray = ARRAY \<and> \<not> Null NewNullArray \<and> Array NewNullArray \<noteq> [])
   \<and> processCommand 0 NewNullArray NewDatabase
       = Inr (NewError ''ERR invalid command format'', NewDatabase)
   \<and> constructible (NewArray [])
   \<and> processCommand 0 (NewArray []) NewDatabase
       = Inr (NewError ''ERR invalid command format'', NewDatabase)
   \<and> constructible (NewBulkString ''PING'')
   \<and> processCommand 0 (NewBulkString ''PING'') NewDatabase
       = Inr (NewError ''ERR invalid command format'', NewDatabase)"
proof -
  have c: "constructible NewNullArray" "constructible (NewArray [])"
    "constructible (NewBulkString ''PING'')"
    by (simp_all add: NewNullArray_def NewArray_def NewBulkString_def)
  have n: "\<not> (Value.Type NewNullArray = ARRAY \<and> \<not> Null NewNullArray \<and> Array NewNullArray \<noteq> [])"
    "\<not> (Value.Type (NewArray []) = ARRAY \<and> \<not> Null (NewArray []) \<and> Array (NewArray []) \<noteq> [])"
    "\<not> (Value.Type (NewBulkString ''PING'') = ARRAY \<and> \<not> Null (NewBulkString ''PING'')
        \<and> Array (NewBulkString ''PING'') \<noteq> [])"
    by (simp_all add: NewNullArray_def NewArray_def NewBulkString_def)
  from processCommand_total [of 0 NewNullArray NewDatabase]
    processCommand_total [of 0 "NewArray []" NewDatabase]
    processCommand_total [of 0 "NewBulkString ''PING''" NewDatabase] c n
  show ?thesis by blast
qed

text \<open>
  Claim C10. Starting from the empty store, every sequence of dispatched commands (each
  any value, at any instant) runs to its end, and in the store it leaves every entry
  has Type \<open>string\<close>, or Type \<open>list\<close> and at least one element.
\<close>

theorem store_entries_invariant:
  "\<exists>db. dispatch_all NewDatabase reqs = Inr db
     \<and> (\<forall>k e. data db k = Some e \<longrightarrow>
           RedisValue.Type e = ''string''
           \<or> (RedisValue.Type e = ''list'' \<and> List e \<noteq> []))"
proof -
  have "store_ok NewDatabase" by (simp add: store_ok_def NewDatabase_def)
  from dispatch_all_ok [OF this, of reqs] show ?thesis
    by (simp add: store_ok_def entry_ok_def)
qed

theorem store_entries_invariant_witness:
  "dispatch_all NewDatabase
     [(1, request [''SET'', ''s'', ''v'']), (2, request [''RPUSH'', ''l'', ''a'', ''b'']),
      (3, request [''LPOP'', ''l'']), (4, request [''LPUSH'', ''m'', ''c'']),
      (5, request [''RPOP'', ''m''])]
     = Inr \<lparr>data = [''s'' \<mapsto> NewStringValue ''v'', ''l'' \<mapsto> NewListValue\<lparr>List := [''b'']\<rparr>]\<rparr>
   \<and> RedisValue.Type (NewStringValue ''v'') = ''string''
   \<and> RedisValue.Type (NewListValue\<lparr>List := [''b'']\<rparr>) = ''list''
   \<and> List (NewListValue\<lparr>List := [''b'']\<rparr>) \<noteq> []"
proof -
  let ?reqs = "[(1, request [''SET'', ''s'', ''v'']), (2, request [''RPUSH'', ''l'', ''a'', ''b'']),
      (3, request [''LPOP'', ''l'']), (4, request [''LPUSH'', ''m'', ''c'']),
      (5, request [''RPOP'', ''m''])]"
  let ?db = "\<lparr>data = [''s'' \<mapsto> NewStringValue ''v'', ''l'' \<mapsto> NewListValue\<lparr>List := [''b'']\<rparr>]\<rparr>"
  have run: "dispatch_all NewDatabase ?reqs = Inr ?db"
    by (simp add: processCommand_request handleSet_def handleLPush_def handleRPush_def
        handleLPop_def handleRPop_def index_def Bulk_NewBulkString Set_db_def GetValue_def
        SetValue_def IsExpired_def NewStringValue_def NewListValue_def push_values_def
        push_loop_unroll ListPush_def ListPop_def ListLength_def Del_def NewDatabase_def
        write_through_def
        fun_upd_twist)
  from store_entries_invariant [of ?reqs] obtain db where
    d: "dispatch_all NewDatabase ?reqs = Inr db" and
    i: "\<forall>k e. data db k = Some e \<longrightarrow>
           RedisValue.Type e = ''string'' \<or> (RedisValue.Type e = ''list'' \<and> List e \<noteq> [])"
    by blast
  from d run have "db = ?db" by simp
  moreover have "data ?db ''l'' = Some (NewListValue\<lparr>List := [''b'']\<rparr>)" by simp
  ultimately have "RedisValue.Type (NewListValue\<lparr>List := [''b'']\<rparr>) = ''string''
       \<or> (RedisValue.Type (NewListValue\<lparr>List := [''b'']\<rparr>) = ''list''
          \<and> List (NewListValue\<lparr>List := [''b'']\<rparr>) \<noteq> [])"
    using i by blast
  then have "RedisValue.Type (NewListValue\<lparr>List := [''b'']\<rparr>) = ''list''
          \<and> List (NewListValue\<lparr>List := [''b'']\<rparr>) \<noteq> []"
    by (simp add: NewListValue_def)
  with run show ?thesis by (simp add: NewStringValue_def)
qed

text \<open>
  Claim C3, as amended. The claim as written fails: nothing in \<open>handleClient\<close> or
  \<open>processCommand\<close> ends the loop on a command. What holds: QUIT (with any arguments)
  is answered with the SimpleString OK and leaves the store as it was, and when the
  request read from the connection is QUIT the loop writes that reply and goes on with
  the bytes that follow it, as after any other command.
\<close>

theorem QUIT_replies_OK_and_loop_continues:
  "processCommand now (request (''QUIT'' # args)) db = Inr (NewSimpleString ''OK'', db)
   \<and> (Read input = Ok (request (''QUIT'' # args)) rest \<longrightarrow>
        handleClient clock n input db out
          = handleClient clock (n + 1) rest db (out @ ''+OK'' @ CRLF))"
proof (intro conjI impI)
  show p: "processCommand now (request (''QUIT'' # args)) db = Inr (NewSimpleString ''OK'', db)"
    for now
    by (simp add: processCommand_request)
  assume r: "Read input = Ok (request (''QUIT'' # args)) rest"
  show "handleClient clock n input db out
          = handleClient clock (n + 1) rest db (out @ ''+OK'' @ CRLF)"
    by (subst handleClient.simps) (simp add: r p Write_OK)
qed

theorem QUIT_replies_OK_and_loop_continues_witness:
  "Read (''*1'' @ CRLF @ ''$4'' @ CRLF @ ''QUIT'' @ CRLF @ ''*1'' @ CRLF @ ''$4'' @ CRLF @ ''PING'' @ CRLF)
     = Ok (request [''QUIT'']) (''*1'' @ CRLF @ ''$4'' @ CRLF @ ''PING'' @ CRLF)
   \<and> processCommand 0 (request [''QUIT'']) NewDatabase = Inr (NewSimpleString ''OK'', NewDatabase)
   \<and> handleClient (\<lambda>n. 0) 0
        (''*1'' @ CRLF @ ''$4'' @ CRLF @ ''QUIT'' @ CRLF @ ''*1'' @ CRLF @ ''$4'' @ CRLF @ ''PING'' @ CRLF)
        NewDatabase []
     = handleClient (\<lambda>n. 0) 1 (''*1'' @ CRLF @ ''$4'' @ CRLF @ ''PING'' @ CRLF)
         NewDatabase (''+OK'' @ CRLF)"
proof -
  have r: "Read (''*1'' @ CRLF @ ''$4'' @ CRLF @ ''QUIT'' @ CRLF @ ''*1'' @ CRLF @ ''$4'' @ CRLF @ ''PING'' @ CRLF)
     = Ok (request [''QUIT'']) (''*1'' @ CRLF @ ''$4'' @ CRLF @ ''PING'' @ CRLF)"
    by code_simp
  from QUIT_replies_OK_and_loop_continues [of 0 "[]" NewDatabase
      "''*1'' @ CRLF @ ''$4'' @ CRLF @ ''QUIT'' @ CRLF @ ''*1'' @ CRLF @ ''$4'' @ CRLF @ ''PING'' @ CRLF"
      "''*1'' @ CRLF @ ''$4'' @ CRLF @ ''PING'' @ CRLF" "\<lambda>n. 0" 0 "[]"] r
  show ?thesis by simp
qed

text \<open>
  The counterexample to C3 as written: on a connection that sends QUIT and then PING,
  both are answered; PING is processed after QUIT.
\<close>

theorem QUIT_then_PING_counterexample:
  "sent (handleClient (\<lambda>n. 0) 0
      (''*1'' @ CRLF @ ''$4'' @ CRLF @ ''QUIT'' @ CRLF @ ''*1'' @ CRLF @ ''$4'' @ CRLF @ ''PING'' @ CRLF)
      NewDatabase [])
   = ''+OK'' @ CRLF @ ''+PONG'' @ CRLF"
proof -
  let ?ping = "''*1'' @ CRLF @ ''$4'' @ CRLF @ ''PING'' @ CRLF"
  let ?input = "''*1'' @ CRLF @ ''$4'' @ CRLF @ ''QUIT'' @ CRLF @ ?ping"
  have r1: "Read ?input = Ok (request [''QUIT'']) ?ping" by code_simp
  have r2: "Read ?ping = Ok (request [''PING'']) []" by code_simp
  have r3: "Read [] = Failed EOF" by simp
  have p1: "processCommand 0 (request [''QUIT'']) NewDatabase
              = Inr (NewSimpleString ''OK'', NewDatabase)"
    by (simp add: processCommand_request)
  have p2: "processCommand 0 (request [''PING'']) NewDatabase
              = Inr (NewSimpleString ''PONG'', NewDatabase)"
    by (simp add: processCommand_request handlePing_def)
  have w2: "Write (NewSimpleString ''PONG'') = (''+PONG'' @ CRLF, None)"
    by (simp add: NewSimpleString_def)
  have "handleClient (\<lambda>n. 0) 0 ?input NewDatabase []
          = handleClient (\<lambda>n. 0) (0 + 1) ?ping NewDatabase ([] @ ''+OK'' @ CRLF)"
    by (rule handleClient_step [OF r1 p1 Write_OK])
  also have "\<dots> = handleClient (\<lambda>n. 0) (0 + 1 + 1) [] NewDatabase
                     (([] @ ''+OK'' @ CRLF) @ ''+PONG'' @ CRLF)"
    by (rule handleClient_step [OF r2 p2 w2])
  also have "\<dots> = Closed (([] @ ''+OK'' @ CRLF) @ ''+PONG'' @ CRLF) NewDatabase"
    by (rule handleClient_read_error [OF r3])
  finally show ?thesis by simp
qed

end
